theory Spec2Isabelle
  imports Complex_Main
begin

section \<open>Values and errors of the host language\<close>

text \<open>
  The repository is TypeScript running on Node. Strings are modelled as \<open>string\<close>
  (lists of 8-bit characters), so the whitespace classes below are the part of
  JavaScript's classes that lies in that range. Numbers are IEEE doubles in the source;
  the model computes with \<open>int\<close> (timestamps and counts) and \<open>real\<close> (back-off
  delays), i.e. with exact arithmetic.
\<close>

datatype error = AxiosError string | Error string | TypeError string

fun error_message :: "error \<Rightarrow> string" where
  "error_message (AxiosError m) = m"
| "error_message (Error m) = m"
| "error_message (TypeError m) = m"

text \<open>A value of a parsed JSON request body, or \<open>undefined\<close> for a missing property.\<close>

datatype jsval = JUndefined | JNull | JBoolean bool | JNumber real | JString string | JObject

fun truthy :: "jsval \<Rightarrow> bool" where
  "truthy JUndefined = False"
| "truthy JNull = False"
| "truthy (JBoolean b) = b"
| "truthy (JNumber n) = (n \<noteq> 0)"
| "truthy (JString s) = (s \<noteq> [])"
| "truthy JObject = True"

fun typeof :: "jsval \<Rightarrow> string" where
  "typeof JUndefined = ''undefined''"
| "typeof JNull = ''object''"
| "typeof (JBoolean b) = ''boolean''"
| "typeof (JNumber n) = ''number''"
| "typeof (JString s) = ''string''"
| "typeof JObject = ''object''"

text \<open>
  The time value of \<open>new Date(s)\<close>: milliseconds since the epoch, or NaN when \<open>s\<close>
  does not parse. \<open>new Date(a) > new Date(b)\<close> compares the two time values as
  numbers, and every comparison with NaN is false.
\<close>

datatype timevalue = TimeValue int | InvalidDate

fun date_gt :: "timevalue \<Rightarrow> timevalue \<Rightarrow> bool" where
  "date_gt (TimeValue a) (TimeValue b) = (b < a)"
| "date_gt _ _ = False"

fun date_le :: "timevalue \<Rightarrow> timevalue \<Rightarrow> bool" where
  "date_le (TimeValue a) (TimeValue b) = (a \<le> b)"
| "date_le _ _ = False"

section \<open>Data model (src/types/botpress.ts)\<close>

record MessagePayload =
  payload_type :: string
  payload_text :: string

text \<open>\<open>createdAt\<close> is held as the time value its string denotes.\<close>

record BotpressMessage =
  msg_id :: string
  createdAt :: timevalue
  conversationId :: string
  userId :: string
  payload :: MessagePayload

record BotpressMessageResponse =
  sent_message :: BotpressMessage

record BotpressUser =
  user_id :: string
  user_key :: string

type_synonym meta = "string \<rightharpoonup> jsval"

text \<open>Reading a property of an object: \<open>undefined\<close> when the property is absent.\<close>

definition property :: "meta \<Rightarrow> string \<Rightarrow> jsval" where
  "property m k = (case m k of None \<Rightarrow> JUndefined | Some v \<Rightarrow> v)"

text \<open>
  The declared type of \<open>messages\<close> is an array, but both \<open>listMessages\<close> and the
  chat controller guard against a reply without it, so the field is optional here.
\<close>

record MessagesResponse =
  messages :: "BotpressMessage list option"
  meta :: meta

section \<open>BotpressService: cache and back-off (src/services/contactService.ts, from line 77)\<close>

record ConversationCache =
  cache_messages :: "BotpressMessage list"
  lastUpdated :: int
  ttl :: int

type_synonym conversationCache = "string \<rightharpoonup> ConversationCache"

definition CACHE_TTL :: int where
  "CACHE_TTL = 5 * 60 * 1000"

definition MAX_RETRIES :: nat where
  "MAX_RETRIES = 15"

definition INITIAL_WAIT :: real where
  "INITIAL_WAIT = 500"

definition MAX_WAIT :: real where
  "MAX_WAIT = 3000"

text \<open>
  \<open>calculateBackoff\<close>; the first argument is the sample that \<open>Math.random()\<close>
  returns in this call.
\<close>

definition calculateBackoff :: "real \<Rightarrow> nat \<Rightarrow> real" where
  "calculateBackoff random attempt =
     (let exponential = min (INITIAL_WAIT * (15 / 10) ^ attempt) MAX_WAIT;
          jitter = random * (1 / 10) * exponential
      in exponential + jitter)"

text \<open>\<open>clearExpiredCache\<close>, with the value \<open>now\<close> read from \<open>Date.now()\<close>.\<close>

definition clearExpiredCache :: "int \<Rightarrow> conversationCache \<Rightarrow> conversationCache" where
  "clearExpiredCache now c =
     (\<lambda>key. case c key of
        None \<Rightarrow> None
      | Some cache \<Rightarrow> if now - lastUpdated cache > ttl cache then None else Some cache)"

text \<open>
  \<open>getCachedMessages\<close> reads the clock twice: \<open>clock 0\<close> inside
  \<open>clearExpiredCache\<close>, \<open>clock 1\<close> in its own test. The result is \<open>None\<close> for the
  source's \<open>null\<close>.
\<close>

definition getCachedMessages ::
  "(nat \<Rightarrow> int) \<Rightarrow> string \<Rightarrow> conversationCache \<Rightarrow> BotpressMessage list option \<times> conversationCache" where
  "getCachedMessages clock conversationId' c =
     (let c' = clearExpiredCache (clock 0) c in
      case c' conversationId' of
        None \<Rightarrow> (None, c')
      | Some cache \<Rightarrow>
          if clock 1 - lastUpdated cache < ttl cache then (Some (cache_messages cache), c')
          else (None, c'))"

definition updateCache ::
  "int \<Rightarrow> string \<Rightarrow> BotpressMessage list \<Rightarrow> conversationCache \<Rightarrow> conversationCache" where
  "updateCache now conversationId' msgs c =
     c(conversationId' \<mapsto> \<lparr>cache_messages = msgs, lastUpdated = now, ttl = CACHE_TTL\<rparr>)"

definition clearConversationCache :: "string \<Rightarrow> conversationCache \<Rightarrow> conversationCache" where
  "clearConversationCache conversationId' c = c(conversationId' := None)"

definition clearAllCache :: "conversationCache \<Rightarrow> conversationCache" where
  "clearAllCache c = Map.empty"

text \<open>
  \<open>sendMessage\<close>: \<open>reply\<close> is what the POST to \<open>/messages\<close> yields, a thrown error or
  the response data. Only a successful send reaches the line that deletes the cache entry.
\<close>

definition sendMessage ::
  "error + BotpressMessageResponse \<Rightarrow> string \<Rightarrow> string \<Rightarrow> string \<Rightarrow> conversationCache
     \<Rightarrow> (error + BotpressMessageResponse) \<times> conversationCache" where
  "sendMessage reply userKey conversationId' messageText c =
     (case reply of
        Inl e \<Rightarrow> (Inl e, c)
      | Inr data \<Rightarrow> (Inr data, c(conversationId' := None)))"

text \<open>
  \<open>listMessages\<close>: \<open>reply\<close> is what the GET yields if it is issued, and \<open>clock 2\<close> is
  the time read by \<open>updateCache\<close>. An array is truthy even when empty, so every cache
  hit is served from the cache.
\<close>

definition listMessages ::
  "(nat \<Rightarrow> int) \<Rightarrow> error + MessagesResponse \<Rightarrow> string \<Rightarrow> string \<Rightarrow> conversationCache
     \<Rightarrow> (error + MessagesResponse) \<times> conversationCache" where
  "listMessages clock reply userKey conversationId' c =
     (case getCachedMessages clock conversationId' c of
        (Some cachedMessages, c') \<Rightarrow>
          (Inr \<lparr>messages = Some cachedMessages,
                meta = [''pageSize'' \<mapsto> JNumber (real (length cachedMessages)),
                        ''nextToken'' \<mapsto> JUndefined]\<rparr>, c')
      | (None, c') \<Rightarrow>
          (case reply of
             Inl e \<Rightarrow> (Inl e, c')
           | Inr data \<Rightarrow>
               (Inr data,
                case messages data of
                  Some msgs \<Rightarrow> updateCache (clock 2) conversationId' msgs c'
                | None \<Rightarrow> c')))"

section \<open>BotpressService: waiting for the bot's reply\<close>

text \<open>
  \<open>waitForBotResponse\<close> awaits two things per attempt: the timer and
  \<open>this.listMessages\<close>. The model is given \<open>random i\<close>, the sample
  \<open>Math.random()\<close> returns on attempt \<open>i\<close>, and \<open>polls i\<close>, the outcome of the
  call of \<open>listMessages\<close> on attempt \<open>i\<close> (\<open>Inl\<close> when it throws). Any run of
  the service, whatever other requests do to the shared cache between two polls, is one
  choice of \<open>polls\<close>. The effects of a run are logged in order.
\<close>

datatype effect = Wait real | ListMessages string string

text \<open>
  The ways control leaves the loop: \<open>return botMessages[0]\<close>, the \<open>break\<close> of the
  no-change test, the loop condition becoming false, and an exception.
\<close>

datatype exit = Replied BotpressMessage | NoChange | Exhausted | Thrown error

definition MAX_NO_CHANGE_ATTEMPTS :: nat where
  "MAX_NO_CHANGE_ATTEMPTS = 3"

text \<open>The filter of lines 277-280.\<close>

definition botMessages :: "string \<Rightarrow> BotpressMessage \<Rightarrow> BotpressMessage list \<Rightarrow> BotpressMessage list" where
  "botMessages lastMessageId lastMessage msgs =
     filter (\<lambda>msg. msg_id msg \<noteq> lastMessageId \<and>
                    date_gt (createdAt msg) (createdAt lastMessage)) msgs"

fun after :: "effect list \<Rightarrow> exit \<times> effect list \<Rightarrow> exit \<times> effect list" where
  "after es (x, es') = (x, es @ es')"

function waitLoop ::
  "(nat \<Rightarrow> real) \<Rightarrow> (nat \<Rightarrow> error + MessagesResponse) \<Rightarrow> string \<Rightarrow> string \<Rightarrow> string
     \<Rightarrow> nat \<Rightarrow> nat \<Rightarrow> nat \<Rightarrow> exit \<times> effect list" where
  "waitLoop random polls userKey conversationId' lastMessageId i lastKnownMessageCount noChangeCount =
     (if i < MAX_RETRIES then
        let backoffTime = calculateBackoff (random i) i;
            effects = [Wait backoffTime, ListMessages userKey conversationId']
        in case polls i of
             Inl e \<Rightarrow> (Thrown e, effects)
           | Inr response \<Rightarrow>
               (case messages response of
                  None \<Rightarrow> (Thrown (TypeError ''Cannot read properties of undefined''), effects)
                | Some msgs \<Rightarrow>
                    (case find (\<lambda>m. msg_id m = lastMessageId) msgs of
                       None \<Rightarrow>
                         after effects
                           (waitLoop random polls userKey conversationId' lastMessageId (i + 1)
                              lastKnownMessageCount noChangeCount)
                     | Some lastMessage \<Rightarrow>
                         if length msgs = lastKnownMessageCount then
                           if noChangeCount + 1 \<ge> MAX_NO_CHANGE_ATTEMPTS then (NoChange, effects)
                           else
                             (case botMessages lastMessageId lastMessage msgs of
                                m # _ \<Rightarrow> (Replied m, effects)
                              | [] \<Rightarrow>
                                  after effects
                                    (waitLoop random polls userKey conversationId' lastMessageId (i + 1)
                                       lastKnownMessageCount (noChangeCount + 1)))
                         else
                           (case botMessages lastMessageId lastMessage msgs of
                              m # _ \<Rightarrow> (Replied m, effects)
                            | [] \<Rightarrow>
                                after effects
                                  (waitLoop random polls userKey conversationId' lastMessageId (i + 1)
                                     (length msgs) 0))))
      else (Exhausted, []))"
  by pat_completeness auto
termination
  by (relation "measure (\<lambda>(random, polls, userKey, conversationId', lastMessageId, i, k, n). MAX_RETRIES - i)")
     auto

declare waitLoop.simps [simp del]

text \<open>What the caller of \<open>waitForBotResponse\<close> gets: a message, \<open>null\<close>, or the error rethrown.\<close>

fun delivered :: "exit \<Rightarrow> error + BotpressMessage option" where
  "delivered (Replied m) = Inr (Some m)"
| "delivered NoChange = Inr None"
| "delivered Exhausted = Inr None"
| "delivered (Thrown e) = Inl e"

definition waitForBotResponse ::
  "(nat \<Rightarrow> real) \<Rightarrow> (nat \<Rightarrow> error + MessagesResponse) \<Rightarrow> string \<Rightarrow> string \<Rightarrow> string
     \<Rightarrow> (error + BotpressMessage option) \<times> effect list" where
  "waitForBotResponse random polls userKey conversationId' lastMessageId =
     (case waitLoop random polls userKey conversationId' lastMessageId 0 0 0 of
        (x, effects) \<Rightarrow> (delivered x, effects))"

fun is_poll :: "effect \<Rightarrow> bool" where
  "is_poll (ListMessages u c) = True"
| "is_poll (Wait t) = False"

text \<open>The number of polling attempts in a log.\<close>

definition attempts :: "effect list \<Rightarrow> nat" where
  "attempts es = length (filter is_poll es)"

subsection \<open>The earlier revision (src/services/botpressService.ts)\<close>

text \<open>
  The sources hold two revisions of \<open>BotpressService\<close>. The one modelled above, with
  the cache, the back-off and the no-change test, follows \<open>ContactService\<close> in
  src/services/contactService.ts. The earlier one has no cache; its waiter sleeps a fixed
  second before each of at most ten polls and selects the reply with the same filter.
\<close>

function waitLoop_v1 ::
  "(nat \<Rightarrow> error + MessagesResponse) \<Rightarrow> string \<Rightarrow> string \<Rightarrow> string \<Rightarrow> nat \<Rightarrow> exit \<times> effect list" where
  "waitLoop_v1 polls userKey conversationId' lastMessageId i =
     (if i < 10 then
        let effects = [Wait 1000, ListMessages userKey conversationId']
        in case polls i of
             Inl e \<Rightarrow> (Thrown e, effects)
           | Inr response \<Rightarrow>
               (case messages response of
                  None \<Rightarrow> (Thrown (TypeError ''Cannot read properties of undefined''), effects)
                | Some msgs \<Rightarrow>
                    (case find (\<lambda>m. msg_id m = lastMessageId) msgs of
                       None \<Rightarrow>
                         after effects (waitLoop_v1 polls userKey conversationId' lastMessageId (i + 1))
                     | Some lastMessage \<Rightarrow>
                         (case botMessages lastMessageId lastMessage msgs of
                            m # _ \<Rightarrow> (Replied m, effects)
                          | [] \<Rightarrow>
                              after effects
                                (waitLoop_v1 polls userKey conversationId' lastMessageId (i + 1)))))
      else (Exhausted, []))"
  by pat_completeness auto
termination
  by (relation "measure (\<lambda>(polls, userKey, conversationId', lastMessageId, i). 10 - i)") auto

declare waitLoop_v1.simps [simp del]

subsection \<open>The loop body as a function\<close>

text \<open>The two effects of attempt \<open>j\<close>: the timer, then the poll.\<close>

definition attempt_effects :: "(nat \<Rightarrow> real) \<Rightarrow> string \<Rightarrow> string \<Rightarrow> nat \<Rightarrow> effect list" where
  "attempt_effects random userKey conversationId' j =
     [Wait (calculateBackoff (random j) j), ListMessages userKey conversationId']"

text \<open>
  One pass through the loop body in the state \<open>(lastKnownMessageCount, noChangeCount)\<close>:
  control leaves the loop, or the next attempt starts with new counters. It is used to
  reason about \<open>waitLoop\<close>, which is shown below to iterate it.
\<close>

definition attempt :: "string \<Rightarrow> error + MessagesResponse \<Rightarrow> nat \<Rightarrow> nat \<Rightarrow> exit + nat \<times> nat" where
  "attempt lastMessageId poll k n =
     (case poll of
        Inl e \<Rightarrow> Inl (Thrown e)
      | Inr response \<Rightarrow>
          (case messages response of
             None \<Rightarrow> Inl (Thrown (TypeError ''Cannot read properties of undefined''))
           | Some msgs \<Rightarrow>
               (case find (\<lambda>m. msg_id m = lastMessageId) msgs of
                  None \<Rightarrow> Inr (k, n)
                | Some lastMessage \<Rightarrow>
                    if length msgs = k \<and> n + 1 \<ge> MAX_NO_CHANGE_ATTEMPTS then Inl NoChange
                    else
                      (case botMessages lastMessageId lastMessage msgs of
                         m # _ \<Rightarrow> Inl (Replied m)
                       | [] \<Rightarrow> if length msgs = k then Inr (k, n + 1) else Inr (length msgs, 0)))))"

text \<open>The poll returned a list in which the sent message is located.\<close>

definition located :: "string \<Rightarrow> error + MessagesResponse \<Rightarrow> bool" where
  "located lastMessageId poll =
     (case poll of
        Inl e \<Rightarrow> False
      | Inr response \<Rightarrow>
          (case messages response of
             None \<Rightarrow> False
           | Some msgs \<Rightarrow> find (\<lambda>m. msg_id m = lastMessageId) msgs \<noteq> None))"

text \<open>
  The poll returned a list without a qualifying later message: the sent message is not
  in it, or nothing but the sent message is dated after it.
\<close>

definition no_reply :: "string \<Rightarrow> error + MessagesResponse \<Rightarrow> bool" where
  "no_reply lastMessageId poll =
     (case poll of
        Inl e \<Rightarrow> False
      | Inr response \<Rightarrow>
          (case messages response of
             None \<Rightarrow> False
           | Some msgs \<Rightarrow>
               (case find (\<lambda>m. msg_id m = lastMessageId) msgs of
                  None \<Rightarrow> True
                | Some lastMessage \<Rightarrow> botMessages lastMessageId lastMessage msgs = [])))"

text \<open>The number of located polls among attempts \<open>i, \<dots>, i + m - 1\<close>.\<close>

definition located_count :: "string \<Rightarrow> (nat \<Rightarrow> error + MessagesResponse) \<Rightarrow> nat \<Rightarrow> nat \<Rightarrow> nat" where
  "located_count l p i m = length (filter (\<lambda>j. located l (p j)) [i..<i + m])"

text \<open>
  The poll returned a list of \<open>n\<close> messages that holds the sent message and no
  qualifying later message.
\<close>

definition unchanged_poll :: "string \<Rightarrow> nat \<Rightarrow> error + MessagesResponse \<Rightarrow> bool" where
  "unchanged_poll lastMessageId n poll =
     (case poll of
        Inl e \<Rightarrow> False
      | Inr response \<Rightarrow>
          (case messages response of
             None \<Rightarrow> False
           | Some msgs \<Rightarrow>
               (case find (\<lambda>m. msg_id m = lastMessageId) msgs of
                  None \<Rightarrow> False
                | Some lastMessage \<Rightarrow>
                    length msgs = n \<and> botMessages lastMessageId lastMessage msgs = [])))"

text \<open>Ascending order of \<open>createdAt\<close>, with JavaScript's comparison of the dates.\<close>

definition ascending :: "BotpressMessage list \<Rightarrow> bool" where
  "ascending msgs = sorted_wrt (\<lambda>a b. date_le (createdAt a) (createdAt b)) msgs"

text \<open>The number of messages a poll returned (0 when it returned none).\<close>

definition poll_count :: "error + MessagesResponse \<Rightarrow> nat" where
  "poll_count poll =
     (case poll of
        Inl e \<Rightarrow> 0
      | Inr response \<Rightarrow> (case messages response of None \<Rightarrow> 0 | Some msgs \<Rightarrow> length msgs))"

text \<open>
  The counts of the lists that held the sent message, among the polls of attempts
  \<open>0, \<dots>, k - 1\<close>, in order.
\<close>

definition located_counts :: "string \<Rightarrow> (nat \<Rightarrow> error + MessagesResponse) \<Rightarrow> nat \<Rightarrow> nat list" where
  "located_counts lastMessageId polls k =
     map (\<lambda>j. poll_count (polls j)) (filter (\<lambda>j. located lastMessageId (polls j)) [0..<k])"

text \<open>
  The condition, on the polls alone, under which attempt \<open>k\<close> takes the no-change
  \<open>break\<close>: its list holds the sent message and has the count of each of the three
  lists before it that held the sent message.
\<close>

definition no_change_trips :: "string \<Rightarrow> (nat \<Rightarrow> error + MessagesResponse) \<Rightarrow> nat \<Rightarrow> bool" where
  "no_change_trips lastMessageId polls k =
     (let n = poll_count (polls k)
      in located lastMessageId (polls k) \<and> take 3 (rev (located_counts lastMessageId polls k)) = [n, n, n])"

text \<open>
  The counters \<open>(lastKnownMessageCount, noChangeCount)\<close> after located polls with the
  given counts, as the \<open>if\<close> of lines 265-274 updates them. They are used to relate the
  loop to \<open>no_change_trips\<close>.
\<close>

fun track :: "nat \<times> nat \<Rightarrow> nat \<Rightarrow> nat \<times> nat" where
  "track (k, n) count = (if count = k then (k, n + 1) else (count, 0))"

definition counters :: "nat list \<Rightarrow> nat \<times> nat" where
  "counters counts = foldl track (0, 0) counts"

text \<open>
  Caches written by the service: \<open>updateCache\<close> is the only writer of entries and always
  stores \<open>CACHE_TTL\<close>.
\<close>

definition fixed_ttl :: "conversationCache \<Rightarrow> bool" where
  "fixed_ttl c = (\<forall>key cache. c key = Some cache \<longrightarrow> ttl cache = CACHE_TTL)"

section \<open>Chat controller (src/controllers/chatController.ts, first part)\<close>

text \<open>
  The controller awaits the methods of the service one after another. Each awaited call
  is given by its outcome, \<open>Inl\<close> when it throws; the calls made are logged in order.
  Logging is left out except where evaluating a logged expression can throw. (Line 156 of
  the source reads \<open>hasBot Response\<close>; it is taken as the property name
  \<open>hasBotResponse\<close>.)
\<close>

record chat_request =
  body_message :: jsval
  body_userId :: "string option"
  body_conversationId :: "string option"
  header_user_key :: "string option"

record botpress_outcomes =
  createUser_outcome :: "error + string \<times> BotpressUser"
  createConversation_outcome :: "error + string"
  sendMessage_outcome :: "error + BotpressMessageResponse"
  waitForBotResponse_outcome :: "error + BotpressMessage option"
  listMessages_outcome :: "error + MessagesResponse"

datatype service_call =
    CallCreateUser
  | CallCreateConversation string
  | CallSendMessage string string string
  | CallWaitForBotResponse string string string
  | CallListMessages string string

record conversation_info =
  conversation_id :: string
  isStarted :: bool

record user_info =
  info_key :: string
  info_id :: "string option"

record ChatResponse =
  chat_message :: BotpressMessageResponse
  botResponse :: "BotpressMessage option"
  conversation :: conversation_info
  chat_messages :: "BotpressMessage list"
  user :: user_info

text \<open>
  Response bodies: \<open>{error, code}\<close>, \<open>{error, message, code}\<close> of the outer
  \<open>catch\<close>, and the chat response.
\<close>

datatype response_body =
    ErrorBody string string
  | FailureBody string string string
  | ChatBody ChatResponse

datatype http_response = Response (status: nat) (headers: "(string \<times> string) list") (body: response_body)

text \<open>
  \<open>message?.substring(0, 50)\<close>, evaluated as an argument of the first log call. The
  optional chain stops only at \<open>null\<close> and \<open>undefined\<close>; any other value that has no
  \<open>substring\<close> method makes the call throw.
\<close>

fun optional_substring :: "jsval \<Rightarrow> error + jsval" where
  "optional_substring JUndefined = Inr JUndefined"
| "optional_substring JNull = Inr JUndefined"
| "optional_substring (JString s) = Inr (JString (take 50 s))"
| "optional_substring v = Inl (TypeError ''message?.substring is not a function'')"

definition falsy :: "jsval \<Rightarrow> bool" where
  "falsy v = (\<not> truthy v)"

fun string_of :: "jsval \<Rightarrow> string" where
  "string_of (JString s) = s"
| "string_of v = []"

text \<open>An absent or empty string, for \<open>!currentUserKey\<close> and \<open>!currentConversationId\<close>.\<close>

fun absent :: "string option \<Rightarrow> bool" where
  "absent None = True"
| "absent (Some s) = (s = [])"

fun given :: "string option \<Rightarrow> string" where
  "given None = []"
| "given (Some s) = s"

text \<open>White space and line terminators, as far as they are 8-bit characters.\<close>

definition is_whitespace :: "char \<Rightarrow> bool" where
  "is_whitespace ch = (of_char ch \<in> {9, 10, 11, 12, 13, 32, 160 :: nat})"

definition trim :: "string \<Rightarrow> string" where
  "trim s = rev (dropWhile is_whitespace (rev (dropWhile is_whitespace s)))"

definition no_cache_headers :: "(string \<times> string) list" where
  "no_cache_headers =
     [(''Cache-Control'', ''no-cache, no-store, must-revalidate''), (''Pragma'', ''no-cache''),
      (''Expires'', ''0'')]"

definition handleChatMessage ::
  "chat_request \<Rightarrow> botpress_outcomes \<Rightarrow> http_response \<times> service_call list" where
  "handleChatMessage req svc =
     (let message = body_message req;
          userId = body_userId req;
          userKey = header_user_key req;
          conversationId'' = body_conversationId req
      in (case optional_substring message of
        Inl e \<Rightarrow>
          (Response 500 []
             (FailureBody ''Failed to process message'' (error_message e) ''INTERNAL_SERVER_ERROR''), [])
      | Inr preview \<Rightarrow>
          if falsy message \<or> typeof message \<noteq> ''string'' then
            (Response 400 [] (ErrorBody ''Message is required and must be a string'' ''INVALID_MESSAGE''), [])
          else if length (trim (string_of message)) = 0 then
            (Response 400 [] (ErrorBody ''Message cannot be empty'' ''EMPTY_MESSAGE''), [])
          else if length (string_of message) > 5000 then
            (Response 400 [] (ErrorBody ''Message is too long (max 5000 characters)'' ''MESSAGE_TOO_LONG''), [])
          else
            (let calls1 = (if absent userKey then [CallCreateUser] else []) in
            (case (if absent userKey then
                    (case createUser_outcome svc of
                       Inl e \<Rightarrow> Inl e
                     | Inr (key, usr) \<Rightarrow> Inr (key, Some (user_id usr)))
                  else Inr (given userKey, userId)) of
              Inl e \<Rightarrow>
                (Response 500 [] (ErrorBody ''Failed to create user session'' ''USER_CREATION_FAILED''), calls1)
            | Inr (currentUserKey, currentUserId) \<Rightarrow>
                (let calls2 = calls1 @
                      (if absent conversationId'' then [CallCreateConversation currentUserKey] else []) in
                (case (if absent conversationId'' then createConversation_outcome svc
                      else Inr (given conversationId'')) of
                  Inl e \<Rightarrow>
                    (Response 500 []
                       (ErrorBody ''Failed to create conversation'' ''CONVERSATION_CREATION_FAILED''), calls2)
                | Inr currentConversationId \<Rightarrow>
                    (let calls3 = calls2 @
                          [CallSendMessage currentUserKey currentConversationId (string_of message)] in
                    (case sendMessage_outcome svc of
                      Inl e \<Rightarrow>
                        (Response 500 [] (ErrorBody ''Failed to send message'' ''MESSAGE_SEND_FAILED''), calls3)
                    | Inr sentMessage \<Rightarrow>
                        (let calls4 = calls3 @
                              [CallWaitForBotResponse currentUserKey currentConversationId
                                 (msg_id (sent_message sentMessage))];
                            botResponse' = (case waitForBotResponse_outcome svc of
                                              Inl e \<Rightarrow> None
                                            | Inr found \<Rightarrow> found);
                            calls5 = calls4 @ [CallListMessages currentUserKey currentConversationId];
                            messages' = (case listMessages_outcome svc of
                                           Inl e \<Rightarrow> []
                                         | Inr messagesResponse \<Rightarrow>
                                             (case messages messagesResponse of
                                                None \<Rightarrow> []
                                              | Some msgs \<Rightarrow> msgs))
                        in (Response 200 no_cache_headers
                              (ChatBody
                                 \<lparr>chat_message = sentMessage,
                                  botResponse = botResponse',
                                  conversation = \<lparr>conversation_id = currentConversationId, isStarted = True\<rparr>,
                                  chat_messages = messages',
                                  user = \<lparr>info_key = currentUserKey, info_id = currentUserId\<rparr>\<rparr>),
                            calls5))))))))))"

section \<open>Contact controller (src/controllers/contactController.ts)\<close>

record contact_request =
  body_name :: "string option"
  body_email :: "string option"
  body_contact_message :: "string option"

text \<open>
  The two methods of \<open>ContactService\<close>: \<open>validateConnection\<close> catches every error
  and returns a boolean, \<open>sendMessage\<close> returns nothing or throws.
\<close>

record relay_outcomes =
  validateConnection_outcome :: bool
  relay_sendMessage_outcome :: "error + unit"

datatype relay_call = CallValidateConnection | CallRelaySendMessage string string string

datatype contact_body =
    ContactError string
  | ContactSuccess string
  | ContactFailure string string

datatype contact_response = ContactResponse (contact_status: nat) (contact_body: contact_body)

text \<open>
  The regular expression \<open>/^[^\s@]+@[^\s@]+\.[^\s@]+$/\<close>. \<open>class_plus\<close> is
  \<open>[^\s@]+\<close> matched against a whole string; the expression matches when the string
  splits into such a part, \<open>@\<close>, such a part, a dot and such a part.
\<close>

definition class_plus :: "string \<Rightarrow> bool" where
  "class_plus s = (s \<noteq> [] \<and> list_all (\<lambda>ch. \<not> is_whitespace ch \<and> ch \<noteq> CHR ''@'') s)"

definition splits :: "string \<Rightarrow> (string \<times> string) list" where
  "splits s = map (\<lambda>i. (take i s, drop i s)) [0..<Suc (length s)]"

definition emailRegex_test :: "string \<Rightarrow> bool" where
  "emailRegex_test s =
     list_ex (\<lambda>(local_part, rest).
        case rest of
          [] \<Rightarrow> False
        | c1 # domain \<Rightarrow>
            c1 = CHR ''@'' \<and> class_plus local_part \<and>
            list_ex (\<lambda>(name, rest').
               case rest' of
                 [] \<Rightarrow> False
               | c2 # tld \<Rightarrow> c2 = CHR ''.'' \<and> class_plus name \<and> class_plus tld)
              (splits domain))
       (splits s)"

definition ContactController_sendMessage ::
  "contact_request \<Rightarrow> relay_outcomes \<Rightarrow> contact_response \<times> relay_call list" where
  "ContactController_sendMessage req relay =
     (let name = body_name req; email = body_email req; message = body_contact_message req in
      if absent name \<or> absent email \<or> absent message then
        (ContactResponse 400 (ContactError ''Missing required fields''), [])
      else if \<not> emailRegex_test (given email) then
        (ContactResponse 400 (ContactError ''Invalid email format''), [])
      else if \<not> validateConnection_outcome relay then
        (ContactResponse 503 (ContactError ''Service unavailable''), [CallValidateConnection])
      else
        (case relay_sendMessage_outcome relay of
           Inl e \<Rightarrow>
             (ContactResponse 500 (ContactFailure ''Failed to send message'' (error_message e)),
              [CallValidateConnection, CallRelaySendMessage (given name) (given email) (given message)])
         | Inr done \<Rightarrow>
             (ContactResponse 200 (ContactSuccess ''Message sent successfully''),
              [CallValidateConnection, CallRelaySendMessage (given name) (given email) (given message)])))"

section \<open>Sample data\<close>

definition sample_message :: "string \<Rightarrow> int \<Rightarrow> BotpressMessage" where
  "sample_message i t =
     \<lparr>msg_id = i, createdAt = TimeValue t, conversationId = ''conv'', userId = ''user'',
      payload = \<lparr>payload_type = ''text'', payload_text = ''hello''\<rparr>\<rparr>"

definition sample_list :: "BotpressMessage list \<Rightarrow> error + MessagesResponse" where
  "sample_list msgs = Inr \<lparr>messages = Some msgs, meta = Map.empty\<rparr>"

text \<open>
  Two conversations as a lone request sees them: in the first the bot's replies arrive
  between the first and the second poll; in the second the count stays at two while an
  unrelated earlier message is replaced by the bot's reply before the fourth poll.
\<close>

definition no_jitter :: "nat \<Rightarrow> real" where
  "no_jitter j = 0"

definition growing_polls :: "nat \<Rightarrow> error + MessagesResponse" where
  "growing_polls j =
     (if j < 1 then sample_list [sample_message ''m1'' 100]
      else sample_list [sample_message ''m1'' 100, sample_message ''b1'' 200, sample_message ''b2'' 300])"

definition stalled_polls :: "nat \<Rightarrow> error + MessagesResponse" where
  "stalled_polls j =
     (if j < 3 then sample_list [sample_message ''x1'' 50, sample_message ''m1'' 100]
      else sample_list [sample_message ''m1'' 100, sample_message ''b1'' 200])"

definition sample_outcomes :: botpress_outcomes where
  "sample_outcomes =
     \<lparr>createUser_outcome = Inr (''key'', \<lparr>user_id = ''user'', user_key = ''key''\<rparr>),
      createConversation_outcome = Inr ''conv'',
      sendMessage_outcome = Inr \<lparr>sent_message = sample_message ''m1'' 100\<rparr>,
      waitForBotResponse_outcome = Inr None,
      listMessages_outcome = Inl (AxiosError ''Request failed with status code 502'')\<rparr>"

definition sample_request :: chat_request where
  "sample_request =
     \<lparr>body_message = JString ''Hello'', body_userId = None, body_conversationId = None,
      header_user_key = None\<rparr>"

section \<open>Properties of the back-off and of the polling loop\<close>

lemma waitLoop_unfold:
  "waitLoop r p u c l i k n =
     (if i < MAX_RETRIES then
        (case attempt l (p i) k n of
           Inl x \<Rightarrow> (x, attempt_effects r u c i)
         | Inr (k', n') \<Rightarrow> after (attempt_effects r u c i) (waitLoop r p u c l (i + 1) k' n'))
      else (Exhausted, []))"
  by (subst waitLoop.simps)
     (simp add: attempt_def attempt_effects_def Let_def split: sum.splits option.splits list.splits)

lemma find_Some_length: "find P xs = Some x \<Longrightarrow> length xs \<noteq> 0"
  by (cases xs) simp_all

lemma waitLoop_induct [consumes 0, case_names stop leave continue]:
  assumes stop: "\<And>i k n. \<not> i < MAX_RETRIES \<Longrightarrow> P i k n"
    and leave: "\<And>i k n x. i < MAX_RETRIES \<Longrightarrow> attempt l (p i) k n = Inl x \<Longrightarrow> P i k n"
    and continue: "\<And>i k n k' n'. i < MAX_RETRIES \<Longrightarrow> attempt l (p i) k n = Inr (k', n') \<Longrightarrow> P (i + 1) k' n' \<Longrightarrow> P i k n"
  shows "P i k n"
proof -
  have "\<forall>i k n. MAX_RETRIES - i = d \<longrightarrow> P i k n" for d
  proof (induction d)
    case 0
    then show ?case using stop by simp
  next
    case (Suc d)
    show ?case
    proof (intro allI impI)
      fix i k n
      assume d: "MAX_RETRIES - i = Suc d"
      then have lt: "i < MAX_RETRIES" by simp
      show "P i k n"
      proof (cases "attempt l (p i) k n")
        case (Inl x)
        then show ?thesis using leave lt by blast
      next
        case (Inr kn)
        obtain k' n' where kn: "kn = (k', n')" by (cases kn)
        have "MAX_RETRIES - (i + 1) = d" using d by simp
        then have "P (i + 1) k' n'" using Suc by blast
        then show ?thesis using continue lt Inr kn by blast
      qed
    qed
  qed
  then show ?thesis by blast
qed

lemma after_snd: "snd (after es q) = es @ snd q"
  by (cases q) simp

lemma after_fst: "fst (after es q) = fst q"
  by (cases q) simp

lemma waitLoop_attempts_stop: "\<not> i < MAX_RETRIES \<Longrightarrow> waitLoop r p u c l i k n = (Exhausted, [])"
  by (subst waitLoop_unfold) simp

lemma waitLoop_leave:
  "i < MAX_RETRIES \<Longrightarrow> attempt l (p i) k n = Inl x \<Longrightarrow> waitLoop r p u c l i k n = (x, attempt_effects r u c i)"
  by (subst waitLoop_unfold) simp

lemma waitLoop_continue:
  "i < MAX_RETRIES \<Longrightarrow> attempt l (p i) k n = Inr (k', n') \<Longrightarrow>
     waitLoop r p u c l i k n = after (attempt_effects r u c i) (waitLoop r p u c l (i + 1) k' n')"
  by (subst waitLoop_unfold) simp

lemma attempts_single: "attempts (attempt_effects r u c i) = 1"
  by (simp add: attempts_def attempt_effects_def)

lemma attempts_after: "attempts (snd (after (attempt_effects r u c i) q)) = Suc (attempts (snd q))"
  by (simp add: after_snd attempts_def attempt_effects_def)

lemma waitLoop_continue_Suc:
  "i < MAX_RETRIES \<Longrightarrow> attempt l (p i) k n = Inr (k', n') \<Longrightarrow>
     fst (waitLoop r p u c l i k n) = fst (waitLoop r p u c l (Suc i) k' n')
     \<and> attempts (snd (waitLoop r p u c l i k n)) = Suc (attempts (snd (waitLoop r p u c l (Suc i) k' n')))"
  using waitLoop_continue[of i l p k n k' n' r u c] by (simp add: after_fst attempts_after)

lemma attempts_concat: "attempts (concat (map (attempt_effects r u c) js)) = length js"
  by (induction js) (simp_all add: attempts_def attempt_effects_def)

lemma waitLoop_effects:
  "\<exists>m\<le>MAX_RETRIES - i. snd (waitLoop r p u c l i k n) = concat (map (attempt_effects r u c) [i..<i + m])"
proof (induction i k n rule: waitLoop_induct[where l = l and p = p])
  case (stop i k n)
  then show ?case by (subst waitLoop_unfold) simp
next
  case (leave i k n x)
  then show ?case by (subst waitLoop_unfold) (auto intro!: exI[of _ 1])
next
  case (continue i k n k' n')
  then obtain m where m: "m \<le> MAX_RETRIES - (i + 1)"
    "snd (waitLoop r p u c l (i + 1) k' n') = concat (map (attempt_effects r u c) [i + 1..<i + 1 + m])"
    by blast
  have "[i..<i + Suc m] = i # [i + 1..<i + 1 + m]"
    by (simp add: upt_rec)
  then have "concat (map (attempt_effects r u c) [i..<i + Suc m]) =
      attempt_effects r u c i @ snd (waitLoop r p u c l (i + 1) k' n')"
    using m(2) by simp
  moreover have "snd (waitLoop r p u c l i k n) =
      attempt_effects r u c i @ snd (waitLoop r p u c l (i + 1) k' n')"
    using continue(1,2) by (subst waitLoop_unfold) (simp add: after_snd)
  moreover have "Suc m \<le> MAX_RETRIES - i" using m(1) continue(1) by simp
  ultimately show ?case by metis
qed

lemma waitLoop_attempts_le: "attempts (snd (waitLoop r p u c l i k n)) \<le> MAX_RETRIES - i"
proof -
  obtain m where "m \<le> MAX_RETRIES - i"
    "snd (waitLoop r p u c l i k n) = concat (map (attempt_effects r u c) [i..<i + m])"
    using waitLoop_effects by blast
  then show ?thesis by (simp add: attempts_concat)
qed

lemma waitForBotResponse_snd:
  "snd (waitForBotResponse r p u c l) = snd (waitLoop r p u c l 0 0 0)"
  by (simp add: waitForBotResponse_def split: prod.splits)

lemma waitForBotResponse_fst:
  "fst (waitForBotResponse r p u c l) = delivered (fst (waitLoop r p u c l 0 0 0))"
  by (simp add: waitForBotResponse_def split: prod.splits)

lemma calculateBackoff_eq:
  "calculateBackoff x i = min (500 * (3 / 2) ^ i) 3000 + x * (1 / 10) * min (500 * (3 / 2) ^ i) 3000"
  by (simp add: calculateBackoff_def INITIAL_WAIT_def MAX_WAIT_def Let_def)

lemma calculateBackoff_bounds:
  assumes "0 \<le> x" "x < 1"
  shows "min (500 * (3 / 2) ^ i) 3000 \<le> calculateBackoff x i"
    and "calculateBackoff x i < min (500 * (3 / 2) ^ i * (11 / 10)) 3300"
proof -
  let ?e = "min (500 * (3 / 2) ^ i) (3000::real)"
  have pos: "0 < ?e" by simp
  have eq: "calculateBackoff x i = ?e + x * (1 / 10) * ?e" by (rule calculateBackoff_eq)
  have "0 \<le> x * (1 / 10) * ?e" using assms(1) pos by simp
  then show "?e \<le> calculateBackoff x i" using eq by linarith
  have "x * ?e < 1 * ?e" using assms(2) pos by (intro mult_strict_right_mono) auto
  then have "calculateBackoff x i < ?e * (11 / 10)" using eq by simp
  also have "?e * (11 / 10) = min (500 * (3 / 2) ^ i * (11 / 10)) 3300"
    by (simp add: min_def)
  finally show "calculateBackoff x i < min (500 * (3 / 2) ^ i * (11 / 10)) 3300" .
qed

lemma waitLoop_v1_attempts: "attempts (snd (waitLoop_v1 p u c l i)) \<le> 10 - i"
proof (induction p u c l i rule: waitLoop_v1.induct)
  case (1 p u c l i)
  show ?case
  proof (cases "i < 10")
    case False
    then show ?thesis by (subst waitLoop_v1.simps) (simp add: attempts_def)
  next
    case True
    have step: "attempts (snd (after [Wait 1000, ListMessages u c] q)) = Suc (attempts (snd q))" for q
      by (simp add: after_snd attempts_def)
    have next_le: "Suc (attempts (snd (waitLoop_v1 p u c l (i + 1)))) \<le> 10 - i"
      if "attempts (snd (waitLoop_v1 p u c l (i + 1))) \<le> 10 - (i + 1)"
      using that True by simp
    show ?thesis
      apply (subst waitLoop_v1.simps)
      using True "1.IH"[OF True refl] next_le
      apply (simp add: Let_def step split: sum.splits option.splits list.splits)
      apply (auto simp: attempts_def)
      done
  qed
qed

text \<open>The equations that evaluate a run of the waiter on given polls.\<close>

lemmas run_defs = waitLoop.simps MAX_RETRIES_def MAX_NO_CHANGE_ATTEMPTS_def sample_list_def sample_message_def botMessages_def Let_def calculateBackoff_def INITIAL_WAIT_def MAX_WAIT_def waitForBotResponse_def attempts_def located_def no_reply_def

text \<open>
  Claim C1. For every attempt index \<open>i\<close> and every jitter sample \<open>x\<close> with
  \<open>0 \<le> x < 1\<close>, the back-off is \<open>min (500 * 1.5 ^ i) 3000\<close> plus \<open>x / 10\<close> of
  that, so it lies between \<open>min (500 * 1.5 ^ i) 3000\<close> and
  \<open>min (500 * 1.5 ^ i * 1.1) 3300\<close>. Every run of the waiter consists of \<open>m \<le> 15\<close>
  attempts; attempt \<open>j\<close> sleeps for the back-off computed from its own sample and
  then polls once. The earlier revision of the waiter stays within the same number of
  attempts.
\<close>

theorem backoff_range_and_attempt_bound:
  assumes "0 \<le> x" and "x < 1"
  shows "calculateBackoff x i = min (500 * (3 / 2) ^ i) 3000 + x * (1 / 10) * min (500 * (3 / 2) ^ i) 3000
    \<and> min (500 * (3 / 2) ^ i) 3000 \<le> calculateBackoff x i
    \<and> calculateBackoff x i \<le> min (500 * (3 / 2) ^ i * (11 / 10)) 3300
    \<and> (\<exists>m\<le>15. snd (waitForBotResponse random polls u c l) =
          concat (map (\<lambda>j. [Wait (calculateBackoff (random j) j), ListMessages u c]) [0..<m]))
    \<and> attempts (snd (waitForBotResponse random polls u c l)) \<le> 15
    \<and> attempts (snd (waitLoop_v1 polls u c l 0)) \<le> 15"
proof -
  have a: "calculateBackoff x i = min (500 * (3 / 2) ^ i) 3000 + x * (1 / 10) * min (500 * (3 / 2) ^ i) 3000"
    by (rule calculateBackoff_eq)
  have b: "min (500 * (3 / 2) ^ i) 3000 \<le> calculateBackoff x i"
    using assms by (rule calculateBackoff_bounds)
  have c: "calculateBackoff x i \<le> min (500 * (3 / 2) ^ i * (11 / 10)) 3300"
    using calculateBackoff_bounds(2)[OF assms, of i] by simp
  obtain m where m: "m \<le> MAX_RETRIES - 0"
    "snd (waitLoop random polls u c l 0 0 0) = concat (map (attempt_effects random u c) [0..<0 + m])"
    using waitLoop_effects by blast
  have "attempt_effects random u c = (\<lambda>j. [Wait (calculateBackoff (random j) j), ListMessages u c])"
    by (rule ext) (simp add: attempt_effects_def)
  with m have d: "\<exists>m\<le>15. snd (waitForBotResponse random polls u c l) =
          concat (map (\<lambda>j. [Wait (calculateBackoff (random j) j), ListMessages u c]) [0..<m])"
    by (auto simp: waitForBotResponse_snd MAX_RETRIES_def)
  have e: "attempts (snd (waitForBotResponse random polls u c l)) \<le> 15"
    using waitLoop_attempts_le[of random polls u c l 0 0 0]
    by (simp add: waitForBotResponse_snd MAX_RETRIES_def)
  have f: "attempts (snd (waitLoop_v1 polls u c l 0)) \<le> 15"
    using waitLoop_v1_attempts[of polls u c l 0] by simp
  from a b c d e f show ?thesis by blast
qed

text \<open>
  C1 at attempt 2 with the sample 1/2: the back-off is 1125 + 56.25 ms. A run whose first
  poll throws makes one attempt.
\<close>

theorem backoff_range_and_attempt_bound_witness:
  "calculateBackoff (1 / 2) 2 = 4725 / 4
   \<and> 1125 \<le> calculateBackoff (1 / 2) 2 \<and> calculateBackoff (1 / 2) 2 \<le> 2475 / 2
   \<and> attempts (snd (waitForBotResponse (\<lambda>j. 1 / 2) (\<lambda>j. Inl (AxiosError ''timeout'')) ''key'' ''conv'' ''m1'')) \<le> 15"
  using backoff_range_and_attempt_bound[of "1 / 2" 2 "\<lambda>j. 1 / 2" "\<lambda>j. Inl (AxiosError ''timeout'')" "''key''" "''conv''" "''m1''"]
  by (simp add: power2_eq_square)

subsection \<open>Selection of the reply\<close>

lemma filter_head_sorted:
  assumes "sorted_wrt R xs" and "filter P xs = y # ys" and "x \<in> set xs" and "P x"
  shows "x = y \<or> R y x"
  using assms
proof (induction xs)
  case Nil
  then show ?case by simp
next
  case (Cons a xs)
  show ?case
  proof (cases "P a")
    case True
    with Cons.prems have "y = a" by simp
    with Cons.prems show ?thesis by auto
  next
    case False
    with Cons.prems have "filter P xs = y # ys" "x \<in> set xs" "sorted_wrt R xs" by auto
    with Cons.IH Cons.prems(4) show ?thesis by blast
  qed
qed

lemma date_gt_valid: "date_gt a b \<Longrightarrow> date_le a a"
  by (cases a; cases b) simp_all

lemma botMessages_earliest:
  assumes sorted: "sorted_wrt (\<lambda>a b. date_le (createdAt a) (createdAt b)) msgs"
    and later: "m \<in> set msgs" "msg_id m \<noteq> l" "date_gt (createdAt m) (createdAt sent)"
  shows "\<exists>reply rest. botMessages l sent msgs = reply # rest \<and> reply \<in> set msgs
    \<and> msg_id reply \<noteq> l \<and> date_gt (createdAt reply) (createdAt sent)
    \<and> (\<forall>q\<in>set msgs. msg_id q \<noteq> l \<and> date_gt (createdAt q) (createdAt sent)
          \<longrightarrow> date_le (createdAt reply) (createdAt q))"
proof -
  let ?P = "\<lambda>msg. msg_id msg \<noteq> l \<and> date_gt (createdAt msg) (createdAt sent)"
  have "m \<in> set (filter ?P msgs)" using later by simp
  then obtain reply rest where fr: "filter ?P msgs = reply # rest"
    by (cases "filter ?P msgs") auto
  then have "reply \<in> set (filter ?P msgs)" by simp
  then have r: "reply \<in> set msgs" "?P reply" by auto
  have "date_le (createdAt reply) (createdAt q)" if "q \<in> set msgs" "?P q" for q
  proof -
    have "q = reply \<or> date_le (createdAt reply) (createdAt q)"
      using filter_head_sorted[OF sorted fr that(1)] that(2) by blast
    then show ?thesis using r(2) date_gt_valid by blast
  qed
  with fr r show ?thesis unfolding botMessages_def by blast
qed

lemma botMessages_head:
  assumes "botMessages l sent msgs = reply # rest"
  shows "reply \<in> set msgs \<and> msg_id reply \<noteq> l \<and> date_gt (createdAt reply) (createdAt sent)
    \<and> (sorted_wrt (\<lambda>a b. date_le (createdAt a) (createdAt b)) msgs \<longrightarrow>
         (\<forall>q\<in>set msgs. msg_id q \<noteq> l \<and> date_gt (createdAt q) (createdAt sent)
            \<longrightarrow> date_le (createdAt reply) (createdAt q)))"
proof -
  have "reply \<in> set (botMessages l sent msgs)" using assms by simp
  then have r: "reply \<in> set msgs" "msg_id reply \<noteq> l" "date_gt (createdAt reply) (createdAt sent)"
    by (auto simp: botMessages_def)
  have "\<forall>q\<in>set msgs. msg_id q \<noteq> l \<and> date_gt (createdAt q) (createdAt sent)
            \<longrightarrow> date_le (createdAt reply) (createdAt q)"
    if "sorted_wrt (\<lambda>a b. date_le (createdAt a) (createdAt b)) msgs"
    using botMessages_earliest[OF that r] assms by auto
  with r show ?thesis by blast
qed

lemma attempt_Replied:
  "attempt l q k n = Inl (Replied m) \<Longrightarrow>
     \<exists>r msgs sent rest. q = Inr r \<and> messages r = Some msgs
       \<and> find (\<lambda>m. msg_id m = l) msgs = Some sent \<and> botMessages l sent msgs = m # rest"
  by (auto simp: attempt_def split: sum.splits option.splits list.splits if_splits)

lemma waitLoop_Replied:
  "fst (waitLoop r p u c l i k n) = Replied m \<longrightarrow>
     (\<exists>j<MAX_RETRIES. \<exists>resp msgs sent rest. p j = Inr resp \<and> messages resp = Some msgs
        \<and> find (\<lambda>m. msg_id m = l) msgs = Some sent \<and> botMessages l sent msgs = m # rest)"
proof (induction i k n rule: waitLoop_induct[where l = l and p = p])
  case (stop i k n)
  then show ?case by (simp add: waitLoop_attempts_stop)
next
  case (leave i k n x)
  show ?case
  proof
    assume "fst (waitLoop r p u c l i k n) = Replied m"
    then have "attempt l (p i) k n = Inl (Replied m)" using leave by (simp add: waitLoop_leave)
    from attempt_Replied[OF this] leave(1)
    show "\<exists>j<MAX_RETRIES. \<exists>resp msgs sent rest. p j = Inr resp \<and> messages resp = Some msgs
        \<and> find (\<lambda>m. msg_id m = l) msgs = Some sent \<and> botMessages l sent msgs = m # rest"
      by blast
  qed
next
  case (continue i k n k' n')
  then show ?case by (simp add: waitLoop_continue after_fst)
qed

text \<open>
  In every run, a message the waiter returns is the first qualifying message of the list
  of some poll, hence the earliest one when that list is in ascending order.
\<close>

lemma returned_message_is_first_qualifying:
  assumes "fst (waitForBotResponse random polls u c l) = Inr (Some found)"
  shows "\<exists>j<MAX_RETRIES. \<exists>r' msgs' sent'. polls j = Inr r' \<and> messages r' = Some msgs'
          \<and> find (\<lambda>m. msg_id m = l) msgs' = Some sent'
          \<and> found \<in> set msgs' \<and> msg_id found \<noteq> l \<and> date_gt (createdAt found) (createdAt sent')
          \<and> (ascending msgs' \<longrightarrow>
               (\<forall>q\<in>set msgs'. msg_id q \<noteq> l \<and> date_gt (createdAt q) (createdAt sent')
                  \<longrightarrow> date_le (createdAt found) (createdAt q)))"
proof -
  have "fst (waitLoop random polls u c l 0 0 0) = Replied found"
    using assms by (cases "fst (waitLoop random polls u c l 0 0 0)") (simp_all add: waitForBotResponse_fst)
  then obtain j resp msgs' sent' rest where j: "j < MAX_RETRIES" "polls j = Inr resp"
    "messages resp = Some msgs'" "find (\<lambda>m. msg_id m = l) msgs' = Some sent'"
    "botMessages l sent' msgs' = found # rest"
    using waitLoop_Replied[of random polls u c l 0 0 0 found] by blast
  from botMessages_head[OF j(5)] j(1-4) show ?thesis
    unfolding ascending_def by blast
qed

lemma counters_Nil: "counters [] = (0, 0)"
  by (simp add: counters_def)

lemma counters_snoc: "counters (h @ [c]) = track (counters h) c"
  by (simp add: counters_def)

lemma fst_track: "fst (track s c) = c"
  by (cases s) simp

lemma snd_track: "snd (track s c) = (if c = fst s then snd s + 1 else 0)"
  by (cases s) simp

lemma fst_counters: "fst (counters h) = (if h = [] then 0 else last h)"
  by (induction h rule: rev_induct) (simp_all add: counters_Nil counters_snoc fst_track)

lemma counters_three:
  assumes "take 3 (rev h) = [c, c, c]"
  shows "2 \<le> snd (counters h) \<and> fst (counters h) = c"
proof -
  obtain rest where "rev h = c # c # c # rest"
    using assms by (cases "rev h" rule: list.exhaust; simp; cases "tl (rev h)"; simp; cases "tl (tl (rev h))"; simp)
  then have "h = rev rest @ [c, c, c]"
    by (metis rev_rev_ident rev.simps(2) append_Cons append_Nil append_assoc)
  then have h: "h = ((rev rest @ [c]) @ [c]) @ [c]" by simp
  show ?thesis
    unfolding h by (simp only: counters_snoc fst_track snd_track) simp
qed

lemma counters_two:
  assumes "0 \<notin> set h" and "2 \<le> snd (counters h)"
  shows "take 3 (rev h) = [fst (counters h), fst (counters h), fst (counters h)]"
proof -
  have "h \<noteq> []" using assms(2) by (auto simp: counters_Nil)
  then obtain h1 a where h: "h = h1 @ [a]" by (metis rev_exhaust)
  then have a: "a = fst (counters h1)" "1 \<le> snd (counters h1)"
    using assms(2) by (auto simp: counters_snoc snd_track split: if_splits)
  then have "h1 \<noteq> []" by (auto simp: counters_Nil)
  then obtain h2 b where h1: "h1 = h2 @ [b]" by (metis rev_exhaust)
  then have b: "b = a" using a(1) by (simp add: fst_counters)
  have b2: "b = fst (counters h2)"
    using a(2) h1 by (auto simp: counters_snoc snd_track split: if_splits)
  have "b \<noteq> 0" using assms(1) h h1 by auto
  then have "h2 \<noteq> []" using b2 by (auto simp: counters_Nil)
  then obtain h3 d where h2: "h2 = h3 @ [d]" by (metis rev_exhaust)
  then have d: "d = b" using b2 by (simp add: fst_counters)
  have "fst (counters h) = a" using h by (simp add: counters_snoc fst_track)
  then show ?thesis using h h1 h2 b d by simp
qed

lemma located_counts_0: "located_counts l p 0 = []"
  by (simp add: located_counts_def)

lemma located_counts_Suc:
  "located_counts l p (Suc k) =
     located_counts l p k @ (if located l (p k) then [poll_count (p k)] else [])"
  by (simp add: located_counts_def)

lemma located_poll_count: "located l q \<Longrightarrow> poll_count q \<noteq> 0"
  by (auto simp: located_def poll_count_def split: sum.splits option.splits dest: find_Some_length)

lemma located_counts_positive: "0 \<notin> set (located_counts l p k)"
  by (induction k) (auto simp: located_counts_0 located_counts_Suc dest: located_poll_count)

lemma attempt_by_counts:
  "attempt l q k n =
     (case q of
        Inl e \<Rightarrow> Inl (Thrown e)
      | Inr response \<Rightarrow>
          (case messages response of
             None \<Rightarrow> Inl (Thrown (TypeError ''Cannot read properties of undefined''))
           | Some msgs \<Rightarrow>
               (case find (\<lambda>m. msg_id m = l) msgs of
                  None \<Rightarrow> Inr (k, n)
                | Some lastMessage \<Rightarrow>
                    if poll_count q = k \<and> 2 \<le> n then Inl NoChange
                    else
                      (case botMessages l lastMessage msgs of
                         m # _ \<Rightarrow> Inl (Replied m)
                       | [] \<Rightarrow> Inr (track (k, n) (poll_count q))))))"
  by (auto simp: attempt_def poll_count_def MAX_NO_CHANGE_ATTEMPTS_def
      split: sum.splits option.splits list.splits)

lemma trips_iff_counters:
  "no_change_trips l p k \<longleftrightarrow>
     located l (p k) \<and> poll_count (p k) = fst (counters (located_counts l p k))
       \<and> 2 \<le> snd (counters (located_counts l p k))"
proof
  assume "no_change_trips l p k"
  then show "located l (p k) \<and> poll_count (p k) = fst (counters (located_counts l p k))
       \<and> 2 \<le> snd (counters (located_counts l p k))"
    using counters_three[of "located_counts l p k" "poll_count (p k)"]
    by (auto simp: no_change_trips_def Let_def)
next
  assume a: "located l (p k) \<and> poll_count (p k) = fst (counters (located_counts l p k))
       \<and> 2 \<le> snd (counters (located_counts l p k))"
  then have "take 3 (rev (located_counts l p k)) = [poll_count (p k), poll_count (p k), poll_count (p k)]"
    using counters_two[OF located_counts_positive, of l p k] by simp
  with a show "no_change_trips l p k" by (simp add: no_change_trips_def Let_def)
qed

lemma attempt_continues:
  assumes "no_reply l (p k)" and "\<not> no_change_trips l p k"
  shows "attempt l (p k) (fst (counters (located_counts l p k))) (snd (counters (located_counts l p k)))
    = Inr (counters (located_counts l p (Suc k)))"
proof (cases "located l (p k)")
  case False
  then show ?thesis
    using assms(1)
    by (auto simp: attempt_by_counts located_counts_Suc no_reply_def located_def
        split: sum.splits option.splits)
next
  case True
  then have "\<not> (poll_count (p k) = fst (counters (located_counts l p k))
       \<and> 2 \<le> snd (counters (located_counts l p k)))"
    using assms(2) trips_iff_counters by blast
  then show ?thesis
    using True assms(1)
    by (auto simp: attempt_by_counts located_counts_Suc counters_snoc no_reply_def located_def
        split: sum.splits option.splits)
qed

lemma waitLoop_reaches:
  "k \<le> MAX_RETRIES \<Longrightarrow> (\<forall>i<k. no_reply l (p i) \<and> \<not> no_change_trips l p i) \<Longrightarrow>
     fst (waitLoop r p u c l 0 0 0) =
       fst (waitLoop r p u c l k (fst (counters (located_counts l p k))) (snd (counters (located_counts l p k))))
     \<and> attempts (snd (waitLoop r p u c l 0 0 0)) =
       k + attempts (snd (waitLoop r p u c l k (fst (counters (located_counts l p k)))
                            (snd (counters (located_counts l p k)))))"
proof (induction k)
  case 0
  then show ?case by (simp add: located_counts_0 counters_Nil)
next
  case (Suc k)
  then have IH: "fst (waitLoop r p u c l 0 0 0) =
       fst (waitLoop r p u c l k (fst (counters (located_counts l p k))) (snd (counters (located_counts l p k))))
     \<and> attempts (snd (waitLoop r p u c l 0 0 0)) =
       k + attempts (snd (waitLoop r p u c l k (fst (counters (located_counts l p k)))
                            (snd (counters (located_counts l p k)))))"
    by simp
  have lt: "k < MAX_RETRIES" using Suc.prems(1) by simp
  have "no_reply l (p k)" "\<not> no_change_trips l p k" using Suc.prems(2) by simp_all
  then have "attempt l (p k) (fst (counters (located_counts l p k))) (snd (counters (located_counts l p k)))
    = Inr (fst (counters (located_counts l p (Suc k))), snd (counters (located_counts l p (Suc k))))"
    using attempt_continues by simp
  then have "fst (waitLoop r p u c l k (fst (counters (located_counts l p k))) (snd (counters (located_counts l p k))))
      = fst (waitLoop r p u c l (Suc k) (fst (counters (located_counts l p (Suc k))))
               (snd (counters (located_counts l p (Suc k)))))
    \<and> attempts (snd (waitLoop r p u c l k (fst (counters (located_counts l p k)))
                       (snd (counters (located_counts l p k)))))
      = Suc (attempts (snd (waitLoop r p u c l (Suc k) (fst (counters (located_counts l p (Suc k))))
               (snd (counters (located_counts l p (Suc k)))))))"
    using lt
    by (intro waitLoop_continue_Suc[where i = k and l = l and p = p
          and k = "fst (counters (located_counts l p k))" and n = "snd (counters (located_counts l p k))"
          and k' = "fst (counters (located_counts l p (Suc k)))"
          and n' = "snd (counters (located_counts l p (Suc k)))"])
  with IH show ?case by simp
qed

text \<open>
  Claim C2, amended. Let the waiter reach attempt \<open>k\<close> (every earlier poll succeeded
  without a qualifying later message and without the no-change \<open>break\<close>), and let the
  list of attempt \<open>k\<close> be in ascending order of \<open>createdAt\<close>, hold the sent message
  and hold another message dated strictly after it. If the list has the same count as
  each of the three preceding lists that held the sent message, the waiter takes the
  no-change \<open>break\<close> before it looks for later messages and returns \<open>null\<close>.
  Otherwise it returns a qualifying message of the list, and no qualifying message of the
  list is dated before the one returned. In both cases attempt \<open>k\<close> is the last.
\<close>

theorem earliest_later_message_unless_no_change:
  assumes "k < MAX_RETRIES"
    and "\<forall>i<k. no_reply l (polls i) \<and> \<not> no_change_trips l polls i"
    and "polls k = Inr r" and "messages r = Some msgs"
    and "ascending msgs"
    and "find (\<lambda>m. msg_id m = l) msgs = Some sent"
    and "\<exists>m\<in>set msgs. msg_id m \<noteq> l \<and> date_gt (createdAt m) (createdAt sent)"
  shows "(if no_change_trips l polls k
          then fst (waitForBotResponse random polls u c l) = Inr None
          else (\<exists>reply. fst (waitForBotResponse random polls u c l) = Inr (Some reply)
                 \<and> reply \<in> set msgs \<and> msg_id reply \<noteq> l
                 \<and> date_gt (createdAt reply) (createdAt sent)
                 \<and> (\<forall>q\<in>set msgs. msg_id q \<noteq> l \<and> date_gt (createdAt q) (createdAt sent)
                       \<longrightarrow> date_le (createdAt reply) (createdAt q))))
    \<and> attempts (snd (waitForBotResponse random polls u c l)) = k + 1"
proof -
  let ?h = "located_counts l polls k"
  let ?W = "waitLoop random polls u c l k (fst (counters ?h)) (snd (counters ?h))"
  have reach: "fst (waitLoop random polls u c l 0 0 0) = fst ?W"
    "attempts (snd (waitLoop random polls u c l 0 0 0)) = k + attempts (snd ?W)"
    using waitLoop_reaches[of k l polls random u c] assms(1,2) by simp_all
  have loc: "located l (polls k)" using assms(3,4,6) by (simp add: located_def)
  have cnt: "poll_count (polls k) = length msgs" using assms(3,4) by (simp add: poll_count_def)
  from assms(7) obtain m where m: "m \<in> set msgs" "msg_id m \<noteq> l" "date_gt (createdAt m) (createdAt sent)"
    by blast
  have sorted: "sorted_wrt (\<lambda>a b. date_le (createdAt a) (createdAt b)) msgs"
    using assms(5) by (simp add: ascending_def)
  obtain reply rest where sel: "botMessages l sent msgs = reply # rest"
    and props: "reply \<in> set msgs" "msg_id reply \<noteq> l" "date_gt (createdAt reply) (createdAt sent)"
      "\<forall>q\<in>set msgs. msg_id q \<noteq> l \<and> date_gt (createdAt q) (createdAt sent)
          \<longrightarrow> date_le (createdAt reply) (createdAt q)"
    using botMessages_earliest[OF sorted m] by blast
  show ?thesis
  proof (cases "no_change_trips l polls k")
    case True
    then have "poll_count (polls k) = fst (counters ?h) \<and> 2 \<le> snd (counters ?h)"
      using trips_iff_counters by blast
    then have "attempt l (polls k) (fst (counters ?h)) (snd (counters ?h)) = Inl NoChange"
      using assms(3,4,6) by (simp add: attempt_by_counts)
    then have "?W = (NoChange, attempt_effects random u c k)"
      using assms(1) by (rule waitLoop_leave[rotated])
    with reach True show ?thesis
      by (simp add: waitForBotResponse_fst waitForBotResponse_snd attempts_single)
  next
    case False
    then have "\<not> (poll_count (polls k) = fst (counters ?h) \<and> 2 \<le> snd (counters ?h))"
      using trips_iff_counters loc by blast
    then have "attempt l (polls k) (fst (counters ?h)) (snd (counters ?h)) = Inl (Replied reply)"
      using assms(3,4,6) sel by (simp add: attempt_by_counts)
    then have "?W = (Replied reply, attempt_effects random u c k)"
      using assms(1) by (rule waitLoop_leave[rotated])
    with reach have "fst (waitForBotResponse random polls u c l) = Inr (Some reply)"
      "attempts (snd (waitForBotResponse random polls u c l)) = k + 1"
      by (simp_all add: waitForBotResponse_fst waitForBotResponse_snd attempts_single)
    with props False show ?thesis by auto
  qed
qed

text \<open>
  Claim C2 as stated fails: the fourth poll returns an ascending list with the sent
  message and a later reply, but its count is that of the three polls before it, and the
  waiter returns \<open>null\<close>.
\<close>

theorem later_message_missed_by_no_change_counterexample:
  "stalled_polls 3 = sample_list [sample_message ''m1'' 100, sample_message ''b1'' 200]
   \<and> ascending [sample_message ''m1'' 100, sample_message ''b1'' 200]
   \<and> located ''m1'' (stalled_polls 3)
   \<and> botMessages ''m1'' (sample_message ''m1'' 100) [sample_message ''m1'' 100, sample_message ''b1'' 200]
       = [sample_message ''b1'' 200]
   \<and> fst (waitForBotResponse no_jitter stalled_polls ''key'' ''conv'' ''m1'') = Inr None"
  by (simp add: run_defs stalled_polls_def no_jitter_def ascending_def)

text \<open>
  C2 as amended, on the two sample conversations: the earlier of two replies is returned
  on the second attempt, and \<open>null\<close> on the fourth attempt of the stalled one.
\<close>

theorem earliest_later_message_unless_no_change_witness:
  "fst (waitForBotResponse no_jitter growing_polls ''key'' ''conv'' ''m1'')
     = Inr (Some (sample_message ''b1'' 200))
   \<and> attempts (snd (waitForBotResponse no_jitter growing_polls ''key'' ''conv'' ''m1'')) = 2
   \<and> no_change_trips ''m1'' stalled_polls 3
   \<and> fst (waitForBotResponse no_jitter stalled_polls ''key'' ''conv'' ''m1'') = Inr None
   \<and> attempts (snd (waitForBotResponse no_jitter stalled_polls ''key'' ''conv'' ''m1'')) = 4"
proof -
  let ?m1 = "sample_message ''m1'' 100"
  let ?grown = "[?m1, sample_message ''b1'' 200, sample_message ''b2'' 300]"
  let ?late = "[?m1, sample_message ''b1'' 200]"
  have g1: "1 < MAX_RETRIES" by (simp add: MAX_RETRIES_def)
  have g2: "\<forall>i<1. no_reply ''m1'' (growing_polls i) \<and> \<not> no_change_trips ''m1'' growing_polls i"
    by (simp add: no_reply_def no_change_trips_def located_counts_def growing_polls_def
        sample_list_def sample_message_def botMessages_def Let_def)
  have g3: "growing_polls 1 = Inr \<lparr>messages = Some ?grown, meta = Map.empty\<rparr>"
    by (simp add: growing_polls_def sample_list_def)
  have g4: "messages \<lparr>messages = Some ?grown, meta = Map.empty\<rparr> = Some ?grown" by simp
  have g5: "ascending ?grown" by (simp add: ascending_def sample_message_def)
  have g6: "find (\<lambda>m. msg_id m = ''m1'') ?grown = Some ?m1" by (simp add: sample_message_def)
  have g7: "\<exists>m\<in>set ?grown. msg_id m \<noteq> ''m1'' \<and> date_gt (createdAt m) (createdAt ?m1)"
    by (simp add: sample_message_def)
  have g8: "\<not> no_change_trips ''m1'' growing_polls 1"
    by (simp add: no_change_trips_def located_counts_def growing_polls_def poll_count_def located_def
        sample_list_def sample_message_def Let_def)
  from earliest_later_message_unless_no_change[OF g1 g2 g3 g4 g5 g6 g7,
      of no_jitter "''key''" "''conv''"] g8
  obtain reply where r: "fst (waitForBotResponse no_jitter growing_polls ''key'' ''conv'' ''m1'') = Inr (Some reply)"
    "reply \<in> set ?grown" "msg_id reply \<noteq> ''m1''"
    "\<forall>q\<in>set ?grown. msg_id q \<noteq> ''m1'' \<and> date_gt (createdAt q) (createdAt ?m1)
        \<longrightarrow> date_le (createdAt reply) (createdAt q)"
    and n: "attempts (snd (waitForBotResponse no_jitter growing_polls ''key'' ''conv'' ''m1'')) = 2"
    by auto
  from r(4) have "date_le (createdAt reply) (createdAt (sample_message ''b1'' 200))"
    by (simp add: sample_message_def)
  with r(2,3) have "reply = sample_message ''b1'' 200"
    by (auto simp: sample_message_def)
  with r(1) have a: "fst (waitForBotResponse no_jitter growing_polls ''key'' ''conv'' ''m1'')
     = Inr (Some (sample_message ''b1'' 200))" by simp
  have s1: "3 < MAX_RETRIES" by (simp add: MAX_RETRIES_def)
  have cases3: "i = 0 \<or> i = 1 \<or> i = 2" if "i < 3" for i :: nat using that by arith
  have c0: "located_counts ''m1'' stalled_polls 0 = []"
    and c1: "located_counts ''m1'' stalled_polls 1 = [2]"
    and c2: "located_counts ''m1'' stalled_polls 2 = [2, 2]"
    and c3: "located_counts ''m1'' stalled_polls 3 = [2, 2, 2]"
    by (simp_all add: located_counts_def stalled_polls_def poll_count_def located_def
        sample_list_def sample_message_def upt_rec)
  have quiet: "no_reply ''m1'' (stalled_polls i)" if "i < 3" for i
    using that by (simp add: no_reply_def stalled_polls_def sample_list_def sample_message_def botMessages_def)
  have "\<not> no_change_trips ''m1'' stalled_polls i" if "i < 3" for i
    using cases3[OF that] c0 c1 c2 by (auto simp: no_change_trips_def Let_def)
  with quiet have s2: "\<forall>i<3. no_reply ''m1'' (stalled_polls i) \<and> \<not> no_change_trips ''m1'' stalled_polls i"
    by blast
  have s3: "stalled_polls 3 = Inr \<lparr>messages = Some ?late, meta = Map.empty\<rparr>"
    by (simp add: stalled_polls_def sample_list_def)
  have s4: "messages \<lparr>messages = Some ?late, meta = Map.empty\<rparr> = Some ?late" by simp
  have s5: "ascending ?late" by (simp add: ascending_def sample_message_def)
  have s6: "find (\<lambda>m. msg_id m = ''m1'') ?late = Some ?m1" by (simp add: sample_message_def)
  have s7: "\<exists>m\<in>set ?late. msg_id m \<noteq> ''m1'' \<and> date_gt (createdAt m) (createdAt ?m1)"
    by (simp add: sample_message_def)
  have s8: "no_change_trips ''m1'' stalled_polls 3"
    using c3 by (simp add: no_change_trips_def Let_def stalled_polls_def poll_count_def located_def
        sample_list_def sample_message_def)
  from earliest_later_message_unless_no_change[OF s1 s2 s3 s4 s5 s6 s7,
      of no_jitter "''key''" "''conv''"] s8
  have b: "fst (waitForBotResponse no_jitter stalled_polls ''key'' ''conv'' ''m1'') = Inr None"
    "attempts (snd (waitForBotResponse no_jitter stalled_polls ''key'' ''conv'' ''m1'')) = 4"
    by simp_all
  from a n s8 b show ?thesis by blast
qed

subsection \<open>Null results and errors\<close>

lemma attempt_no_reply:
  "no_reply l q \<Longrightarrow> attempt l q k n = Inl NoChange \<or> (\<exists>k' n'. attempt l q k n = Inr (k', n'))"
  by (auto simp: no_reply_def attempt_def split: sum.splits option.splits)

lemma waitLoop_no_reply:
  "(\<forall>j. i \<le> j \<and> j < MAX_RETRIES \<longrightarrow> no_reply l (p j)) \<longrightarrow>
     fst (waitLoop r p u c l i k n) = NoChange \<or> fst (waitLoop r p u c l i k n) = Exhausted"
proof (induction i k n rule: waitLoop_induct[where l = l and p = p])
  case (stop i k n)
  then show ?case by (simp add: waitLoop_attempts_stop)
next
  case (leave i k n x)
  show ?case
  proof
    assume "\<forall>j. i \<le> j \<and> j < MAX_RETRIES \<longrightarrow> no_reply l (p j)"
    then have "no_reply l (p i)" using leave(1) by simp
    then have "x = NoChange" using attempt_no_reply[of l "p i" k n] leave(2) by auto
    then show "fst (waitLoop r p u c l i k n) = NoChange \<or> fst (waitLoop r p u c l i k n) = Exhausted"
      using leave by (simp add: waitLoop_leave)
  qed
next
  case (continue i k n k' n')
  then show ?case by (simp add: waitLoop_continue after_fst)
qed

lemma attempt_Inl_poll: "attempt l (Inl e) k n = Inl (Thrown e)"
  by (simp add: attempt_def)

lemma waitLoop_thrown:
  "i \<le> j \<and> j < i + attempts (snd (waitLoop r p u c l i k n)) \<and> p j = Inl e \<longrightarrow>
     fst (waitLoop r p u c l i k n) = Thrown e"
proof (induction i k n rule: waitLoop_induct[where l = l and p = p])
  case (stop i k n)
  then show ?case by (simp add: waitLoop_attempts_stop attempts_def)
next
  case (leave i k n x)
  show ?case
  proof
    assume a: "i \<le> j \<and> j < i + attempts (snd (waitLoop r p u c l i k n)) \<and> p j = Inl e"
    then have "j = i" using leave by (simp add: waitLoop_leave attempts_single)
    then have "x = Thrown e" using a leave(2) by (simp add: attempt_Inl_poll)
    then show "fst (waitLoop r p u c l i k n) = Thrown e"
      using leave by (simp add: waitLoop_leave)
  qed
next
  case (continue i k n k' n')
  show ?case
  proof
    assume a: "i \<le> j \<and> j < i + attempts (snd (waitLoop r p u c l i k n)) \<and> p j = Inl e"
    have "j \<noteq> i" using a continue(2) by (auto simp: attempt_Inl_poll)
    with a continue(1,2) have "i + 1 \<le> j \<and> j < i + 1 + attempts (snd (waitLoop r p u c l (i + 1) k' n')) \<and> p j = Inl e"
      by (simp add: waitLoop_continue attempts_after)
    with continue(3) have "fst (waitLoop r p u c l (i + 1) k' n') = Thrown e" by blast
    then show "fst (waitLoop r p u c l i k n) = Thrown e"
      using continue(1,2) by (simp add: waitLoop_continue after_fst)
  qed
qed

lemma attempt_Thrown:
  "attempt l q k n = Inl (Thrown e) \<Longrightarrow> q = Inl e \<or> (\<exists>r. q = Inr r \<and> messages r = None)"
  by (auto simp: attempt_def split: sum.splits option.splits list.splits if_splits)

lemma waitLoop_thrown_origin:
  "fst (waitLoop r p u c l i k n) = Thrown e \<longrightarrow>
     (\<exists>j<MAX_RETRIES. p j = Inl e \<or> (\<exists>r. p j = Inr r \<and> messages r = None))"
proof (induction i k n rule: waitLoop_induct[where l = l and p = p])
  case (stop i k n)
  then show ?case by (simp add: waitLoop_attempts_stop)
next
  case (leave i k n x)
  then show ?case using attempt_Thrown[of l "p i" k n e] by (auto simp: waitLoop_leave)
next
  case (continue i k n k' n')
  then show ?case by (simp add: waitLoop_continue after_fst)
qed

lemma attempt_unchanged:
  "unchanged_poll l L q \<Longrightarrow>
     attempt l q k n =
       (if k = L \<and> 3 \<le> n + 1 then Inl NoChange
        else if k = L then Inr (L, n + 1) else Inr (L, 0))"
  by (auto simp: unchanged_poll_def attempt_def MAX_NO_CHANGE_ATTEMPTS_def
      split: sum.splits option.splits)

lemma waitLoop_unchanged_2:
  assumes "j < MAX_RETRIES" "unchanged_poll l L (p j)" "2 \<le> n"
  shows "fst (waitLoop r p u c l j L n) = NoChange \<and> attempts (snd (waitLoop r p u c l j L n)) = 1"
proof -
  have "attempt l (p j) L n = Inl NoChange"
    using attempt_unchanged[OF assms(2), of L n] assms(3) by simp
  then show ?thesis using assms(1) by (simp add: waitLoop_leave attempts_single)
qed

lemma waitLoop_unchanged_1:
  assumes "Suc j < MAX_RETRIES" "unchanged_poll l L (p j)" "unchanged_poll l L (p (Suc j))"
  shows "fst (waitLoop r p u c l j L 1) = NoChange \<and> attempts (snd (waitLoop r p u c l j L 1)) = 2"
proof -
  have "attempt l (p j) L 1 = Inr (L, 2)"
    using attempt_unchanged[OF assms(2), of L 1] by simp
  moreover have "j < MAX_RETRIES" using assms(1) by simp
  ultimately have "fst (waitLoop r p u c l j L 1) = fst (waitLoop r p u c l (Suc j) L 2)
     \<and> attempts (snd (waitLoop r p u c l j L 1)) = Suc (attempts (snd (waitLoop r p u c l (Suc j) L 2)))"
    by (intro waitLoop_continue_Suc)
  moreover have "fst (waitLoop r p u c l (Suc j) L 2) = NoChange
     \<and> attempts (snd (waitLoop r p u c l (Suc j) L 2)) = 1"
    using assms(1,3) by (intro waitLoop_unchanged_2) simp_all
  ultimately show ?thesis by simp
qed

lemma waitLoop_unchanged_0:
  assumes "Suc (Suc j) < MAX_RETRIES" "unchanged_poll l L (p j)" "unchanged_poll l L (p (Suc j))"
    "unchanged_poll l L (p (Suc (Suc j)))"
  shows "fst (waitLoop r p u c l j L 0) = NoChange \<and> attempts (snd (waitLoop r p u c l j L 0)) = 3"
proof -
  have "attempt l (p j) L 0 = Inr (L, 1)"
    using attempt_unchanged[OF assms(2), of L 0] by simp
  moreover have "j < MAX_RETRIES" using assms(1) by simp
  ultimately have "fst (waitLoop r p u c l j L 0) = fst (waitLoop r p u c l (Suc j) L 1)
     \<and> attempts (snd (waitLoop r p u c l j L 0)) = Suc (attempts (snd (waitLoop r p u c l (Suc j) L 1)))"
    by (intro waitLoop_continue_Suc)
  moreover have "fst (waitLoop r p u c l (Suc j) L 1) = NoChange
     \<and> attempts (snd (waitLoop r p u c l (Suc j) L 1)) = 2"
    using assms(1,3,4) by (intro waitLoop_unchanged_1) simp_all
  ultimately show ?thesis by simp
qed

lemma waitLoop_four_unchanged:
  assumes "Suc (Suc (Suc i)) < MAX_RETRIES"
    and "unchanged_poll l L (p i)" "unchanged_poll l L (p (Suc i))"
      "unchanged_poll l L (p (Suc (Suc i)))" "unchanged_poll l L (p (Suc (Suc (Suc i))))"
  shows "fst (waitLoop r p u c l i k n) = NoChange \<and> attempts (snd (waitLoop r p u c l i k n)) \<le> 4"
proof -
  have i: "i < MAX_RETRIES" "Suc i < MAX_RETRIES" "Suc (Suc i) < MAX_RETRIES"
    using assms(1) by simp_all
  consider "k = L" "2 \<le> n" | "k = L" "n = 1" | "k = L" "n = 0" | "k \<noteq> L" by arith
  then show ?thesis
  proof cases
    case 1
    have "fst (waitLoop r p u c l i L n) = NoChange \<and> attempts (snd (waitLoop r p u c l i L n)) = 1"
      using i(1) assms(2) 1(2) by (rule waitLoop_unchanged_2)
    then show ?thesis using 1 by simp
  next
    case 2
    have "fst (waitLoop r p u c l i L 1) = NoChange \<and> attempts (snd (waitLoop r p u c l i L 1)) = 2"
      using i(2) assms(2,3) by (rule waitLoop_unchanged_1)
    then show ?thesis using 2 by simp
  next
    case 3
    have "fst (waitLoop r p u c l i L 0) = NoChange \<and> attempts (snd (waitLoop r p u c l i L 0)) = 3"
      using i(3) assms(2,3,4) by (rule waitLoop_unchanged_0)
    then show ?thesis using 3 by simp
  next
    case 4
    then have "attempt l (p i) k n = Inr (L, 0)"
      using attempt_unchanged[OF assms(2), of k n] by simp
    then have "fst (waitLoop r p u c l i k n) = fst (waitLoop r p u c l (Suc i) L 0)
     \<and> attempts (snd (waitLoop r p u c l i k n)) = Suc (attempts (snd (waitLoop r p u c l (Suc i) L 0)))"
      using i(1) by (intro waitLoop_continue_Suc)
    moreover have "fst (waitLoop r p u c l (Suc i) L 0) = NoChange
      \<and> attempts (snd (waitLoop r p u c l (Suc i) L 0)) = 3"
      using assms(1,3,4,5) by (rule waitLoop_unchanged_0)
    ultimately show ?thesis by simp
  qed
qed

lemma waitLoop_prefix:
  "j \<le> i \<Longrightarrow> i \<le> MAX_RETRIES \<Longrightarrow> (\<forall>t. j \<le> t \<and> t < i \<longrightarrow> no_reply l (p t)) \<Longrightarrow>
     (fst (waitLoop r p u c l j k n) = NoChange \<and> attempts (snd (waitLoop r p u c l j k n)) + j \<le> i)
     \<or> (\<exists>k' n'. fst (waitLoop r p u c l j k n) = fst (waitLoop r p u c l i k' n')
           \<and> attempts (snd (waitLoop r p u c l j k n)) + j = i + attempts (snd (waitLoop r p u c l i k' n')))"
proof (induction "i - j" arbitrary: j k n)
  case 0
  then have "j = i" by simp
  then show ?case by auto
next
  case (Suc d)
  then have lt: "j < i" "j < MAX_RETRIES" by auto
  then have "no_reply l (p j)" using Suc.prems(3) by simp
  then consider "attempt l (p j) k n = Inl NoChange" | k' n' where "attempt l (p j) k n = Inr (k', n')"
    using attempt_no_reply by blast
  then show ?case
  proof cases
    case 1
    then have "fst (waitLoop r p u c l j k n) = NoChange" "attempts (snd (waitLoop r p u c l j k n)) = 1"
      using lt by (simp_all add: waitLoop_leave attempts_single)
    then show ?thesis using lt by simp
  next
    case 2
    then have w: "fst (waitLoop r p u c l j k n) = fst (waitLoop r p u c l (Suc j) k' n')"
      "attempts (snd (waitLoop r p u c l j k n)) = Suc (attempts (snd (waitLoop r p u c l (Suc j) k' n')))"
      using lt waitLoop_continue_Suc by blast+
    have "d = i - Suc j" "Suc j \<le> i" "\<forall>t. Suc j \<le> t \<and> t < i \<longrightarrow> no_reply l (p t)"
      using Suc.hyps(2) Suc.prems lt by auto
    from Suc.hyps(1)[OF this(1,2) Suc.prems(2) this(3), of k' n']
    show ?thesis unfolding w by simp
  qed
qed

lemma waitLoop_no_change_trips:
  assumes "i + 4 \<le> MAX_RETRIES"
    and "\<forall>j<i. no_reply l (p j)"
    and "\<forall>j. i \<le> j \<and> j < i + 4 \<longrightarrow> unchanged_poll l L (p j)"
  shows "fst (waitLoop r p u c l 0 0 0) = NoChange \<and> attempts (snd (waitLoop r p u c l 0 0 0)) \<le> i + 4"
proof -
  have u: "unchanged_poll l L (p i)" "unchanged_poll l L (p (Suc i))"
      "unchanged_poll l L (p (Suc (Suc i)))" "unchanged_poll l L (p (Suc (Suc (Suc i))))"
    using assms(3) by simp_all
  have "Suc (Suc (Suc i)) < MAX_RETRIES" using assms(1) by simp
  then have four: "fst (waitLoop r p u c l i k n) = NoChange \<and> attempts (snd (waitLoop r p u c l i k n)) \<le> 4" for k n
    using u by (rule waitLoop_four_unchanged)
  have "0 \<le> i" "i \<le> MAX_RETRIES" "\<forall>t. 0 \<le> t \<and> t < i \<longrightarrow> no_reply l (p t)"
    using assms(1,2) by simp_all
  from waitLoop_prefix[OF this, of r u c 0 0]
  consider "fst (waitLoop r p u c l 0 0 0) = NoChange" "attempts (snd (waitLoop r p u c l 0 0 0)) \<le> i"
    | k' n' where "fst (waitLoop r p u c l 0 0 0) = fst (waitLoop r p u c l i k' n')"
      "attempts (snd (waitLoop r p u c l 0 0 0)) = i + attempts (snd (waitLoop r p u c l i k' n'))"
    by auto
  then show ?thesis
  proof cases
    case 1
    then show ?thesis by simp
  next
    case 2
    then show ?thesis using four[of k' n'] by simp
  qed
qed

text \<open>
  Claim C3. Both ways of leaving the loop without a reply deliver \<open>null\<close>, a normal
  result: when no poll throws and no polled list holds a qualifying later message the
  result is \<open>null\<close>; four consecutive polls with the same count, the sent message and
  no later message (a baseline and three polls without growth) end the run with
  \<open>null\<close> after at most \<open>i + 4\<close> attempts, however many remain. A poll that throws
  ends the run with that error, and an error reaches the caller only from a poll that
  threw or returned no list.
\<close>

theorem null_when_no_reply_error_when_poll_fails:
  "(fst (waitLoop random polls u c l 0 0 0) = Exhausted \<or> fst (waitLoop random polls u c l 0 0 0) = NoChange
      \<longrightarrow> fst (waitForBotResponse random polls u c l) = Inr None)
   \<and> ((\<forall>i<MAX_RETRIES. no_reply l (polls i)) \<longrightarrow> fst (waitForBotResponse random polls u c l) = Inr None)
   \<and> (i + 4 \<le> MAX_RETRIES \<and> (\<forall>j<i. no_reply l (polls j))
        \<and> (\<forall>j. i \<le> j \<and> j < i + 4 \<longrightarrow> unchanged_poll l L (polls j))
      \<longrightarrow> fst (waitForBotResponse random polls u c l) = Inr None
        \<and> attempts (snd (waitForBotResponse random polls u c l)) \<le> i + 4)
   \<and> (j < attempts (snd (waitForBotResponse random polls u c l)) \<and> polls j = Inl e
      \<longrightarrow> fst (waitForBotResponse random polls u c l) = Inl e)
   \<and> (fst (waitForBotResponse random polls u c l) = Inl e'
      \<longrightarrow> (\<exists>i<MAX_RETRIES. polls i = Inl e' \<or> (\<exists>r. polls i = Inr r \<and> messages r = None)))"
proof (intro conjI impI)
  assume "fst (waitLoop random polls u c l 0 0 0) = Exhausted \<or> fst (waitLoop random polls u c l 0 0 0) = NoChange"
  then show "fst (waitForBotResponse random polls u c l) = Inr None"
    by (auto simp: waitForBotResponse_fst)
next
  assume "\<forall>i<MAX_RETRIES. no_reply l (polls i)"
  then have "fst (waitLoop random polls u c l 0 0 0) = NoChange \<or> fst (waitLoop random polls u c l 0 0 0) = Exhausted"
    using waitLoop_no_reply[of 0 l polls random u c 0 0] by simp
  then show "fst (waitForBotResponse random polls u c l) = Inr None"
    by (auto simp: waitForBotResponse_fst)
next
  assume a: "i + 4 \<le> MAX_RETRIES \<and> (\<forall>j<i. no_reply l (polls j))
        \<and> (\<forall>j. i \<le> j \<and> j < i + 4 \<longrightarrow> unchanged_poll l L (polls j))"
  then have "fst (waitLoop random polls u c l 0 0 0) = NoChange
      \<and> attempts (snd (waitLoop random polls u c l 0 0 0)) \<le> i + 4"
    by (intro waitLoop_no_change_trips) blast+
  then show "fst (waitForBotResponse random polls u c l) = Inr None"
    and "attempts (snd (waitForBotResponse random polls u c l)) \<le> i + 4"
    by (simp_all add: waitForBotResponse_fst waitForBotResponse_snd)
next
  assume "j < attempts (snd (waitForBotResponse random polls u c l)) \<and> polls j = Inl e"
  then have "fst (waitLoop random polls u c l 0 0 0) = Thrown e"
    using waitLoop_thrown[of 0 j random polls u c l 0 0 e] by (simp add: waitForBotResponse_snd)
  then show "fst (waitForBotResponse random polls u c l) = Inl e"
    by (simp add: waitForBotResponse_fst)
next
  assume "fst (waitForBotResponse random polls u c l) = Inl e'"
  then have "fst (waitLoop random polls u c l 0 0 0) = Thrown e'"
    by (cases "fst (waitLoop random polls u c l 0 0 0)") (simp_all add: waitForBotResponse_fst)
  then show "\<exists>i<MAX_RETRIES. polls i = Inl e' \<or> (\<exists>r. polls i = Inr r \<and> messages r = None)"
    using waitLoop_thrown_origin[of random polls u c l 0 0 0 e'] by blast
qed

text \<open>
  C3 on two runs: a conversation that never changes ends with \<open>null\<close> after four
  attempts, and a poll that times out on the second attempt ends with the time-out.
\<close>

theorem null_when_no_reply_error_when_poll_fails_witness:
  "no_reply ''m1'' (sample_list [sample_message ''m1'' 100])
   \<and> fst (waitForBotResponse (\<lambda>j. 0) (\<lambda>j. sample_list [sample_message ''m1'' 100]) ''key'' ''conv'' ''m1'') = Inr None
   \<and> attempts (snd (waitForBotResponse (\<lambda>j. 0) (\<lambda>j. sample_list [sample_message ''m1'' 100]) ''key'' ''conv'' ''m1'')) = 4
   \<and> 1 < attempts (snd (waitForBotResponse (\<lambda>j. 0)
         (\<lambda>j. if j = 0 then sample_list [] else Inl (AxiosError ''timeout'')) ''key'' ''conv'' ''m1''))
   \<and> fst (waitForBotResponse (\<lambda>j. 0)
         (\<lambda>j. if j = 0 then sample_list [] else Inl (AxiosError ''timeout'')) ''key'' ''conv'' ''m1'')
       = Inl (AxiosError ''timeout'')"
proof -
  let ?quiet = "\<lambda>j::nat. sample_list [sample_message ''m1'' 100]"
  let ?failing = "\<lambda>j::nat. if j = 0 then sample_list [] else Inl (AxiosError ''timeout'')"
  have q: "\<forall>i<MAX_RETRIES. no_reply ''m1'' (?quiet i)"
    by (simp add: no_reply_def sample_list_def sample_message_def botMessages_def)
  have n: "attempts (snd (waitForBotResponse (\<lambda>j. 0) ?quiet ''key'' ''conv'' ''m1'')) = 4"
    by (simp add: run_defs)
  have f: "1 < attempts (snd (waitForBotResponse (\<lambda>j. 0) ?failing ''key'' ''conv'' ''m1''))"
    by (simp add: run_defs)
  have p: "?failing 1 = Inl (AxiosError ''timeout'')" by simp
  from null_when_no_reply_error_when_poll_fails[where random = "\<lambda>j. 0" and polls = ?quiet
      and u = "''key''" and c = "''conv''" and l = "''m1''"] q
  have a: "fst (waitForBotResponse (\<lambda>j. 0) ?quiet ''key'' ''conv'' ''m1'') = Inr None" by blast
  from null_when_no_reply_error_when_poll_fails[where random = "\<lambda>j. 0" and polls = ?failing
      and u = "''key''" and c = "''conv''" and l = "''m1''" and j = 1 and e = "AxiosError ''timeout''"] f p
  have b: "fst (waitForBotResponse (\<lambda>j. 0) ?failing ''key'' ''conv'' ''m1'') = Inl (AxiosError ''timeout'')" by blast
  have q': "no_reply ''m1'' (sample_list [sample_message ''m1'' 100])"
    by (simp add: no_reply_def sample_list_def sample_message_def botMessages_def)
  from q' a n f b show ?thesis by blast
qed

subsection \<open>The no-change exit\<close>

lemma attempt_NoChange:
  "attempt l q k n = Inl NoChange \<Longrightarrow> located l q \<and> k \<noteq> 0 \<and> 2 \<le> n"
  by (auto simp: attempt_def located_def MAX_NO_CHANGE_ATTEMPTS_def
      split: sum.splits option.splits list.splits if_splits)

lemma attempt_continue:
  "attempt l q k n = Inr (k', n') \<Longrightarrow>
     (\<not> located l q \<and> k' = k \<and> n' = n) \<or>
     (located l q \<and> k' \<noteq> 0 \<and> ((k' = k \<and> n' = n + 1) \<or> n' = 0))"
  by (auto simp: attempt_def located_def MAX_NO_CHANGE_ATTEMPTS_def
      split: sum.splits option.splits list.splits if_splits dest: find_Some_length)

lemma located_count_Suc:
  "located_count l p i (Suc m) = (if located l (p i) then 1 else 0) + located_count l p (i + 1) m"
proof -
  have "[i..<i + Suc m] = i # [i + 1..<i + 1 + m]"
    by (simp add: upt_rec)
  then show ?thesis unfolding located_count_def by simp
qed

lemma waitLoop_NoChange_count:
  "fst (waitLoop r p u c l i k n) = NoChange \<longrightarrow>
     (if k = 0 then 4 else 3 - n) \<le> located_count l p i (attempts (snd (waitLoop r p u c l i k n)))"
proof (induction i k n rule: waitLoop_induct[where l = l and p = p])
  case (stop i k n)
  then show ?case by (simp add: waitLoop_attempts_stop)
next
  case (leave i k n x)
  show ?case
  proof
    assume "fst (waitLoop r p u c l i k n) = NoChange"
    then have "x = NoChange" using leave by (simp add: waitLoop_leave)
    then have "located l (p i) \<and> k \<noteq> 0 \<and> 2 \<le> n" using leave(2) attempt_NoChange by blast
    moreover have "located_count l p i (Suc 0) = (if located l (p i) then 1 else 0)"
      by (simp add: located_count_Suc located_count_def)
    moreover have "2 \<le> n \<Longrightarrow> 3 - n \<le> Suc 0" by arith
    ultimately show "(if k = 0 then 4 else 3 - n) \<le> located_count l p i (attempts (snd (waitLoop r p u c l i k n)))"
      using leave by (simp add: waitLoop_leave attempts_single)
  qed
next
  case (continue i k n k' n')
  show ?case
  proof
    assume x: "fst (waitLoop r p u c l i k n) = NoChange"
    then have "fst (waitLoop r p u c l (i + 1) k' n') = NoChange"
      using continue(1,2) by (simp add: waitLoop_continue after_fst)
    with continue(3) have IH: "(if k' = 0 then 4 else 3 - n') \<le>
        located_count l p (i + 1) (attempts (snd (waitLoop r p u c l (i + 1) k' n')))" by blast
    have eq: "located_count l p i (attempts (snd (waitLoop r p u c l i k n))) =
        (if located l (p i) then 1 else 0) +
        located_count l p (i + 1) (attempts (snd (waitLoop r p u c l (i + 1) k' n')))"
      using continue(1,2) by (simp add: waitLoop_continue attempts_after located_count_Suc)
    show "(if k = 0 then 4 else 3 - n) \<le> located_count l p i (attempts (snd (waitLoop r p u c l i k n)))"
      using attempt_continue[OF continue(2)] IH unfolding eq by (auto split: if_splits)
  qed
qed

text \<open>
  Claim C9. When the loop is left by the no-change \<open>break\<close>, the result is \<open>null\<close>
  and at least four of the attempts made located the sent message; in particular the
  \<open>break\<close> is never taken on the first attempt that locates it.
\<close>

theorem no_change_exit_needs_four_located_polls:
  "fst (waitLoop random polls u c l 0 0 0) = NoChange \<longrightarrow>
     fst (waitForBotResponse random polls u c l) = Inr None
     \<and> 4 \<le> length (filter (\<lambda>j. located l (polls j))
                [0..<attempts (snd (waitForBotResponse random polls u c l))])
     \<and> (\<forall>k. located l (polls k) \<and> (\<forall>i<k. \<not> located l (polls i))
            \<longrightarrow> attempts (snd (waitForBotResponse random polls u c l)) \<noteq> k + 1)"
proof
  let ?n = "attempts (snd (waitForBotResponse random polls u c l))"
  assume x: "fst (waitLoop random polls u c l 0 0 0) = NoChange"
  then have null: "fst (waitForBotResponse random polls u c l) = Inr None"
    by (simp add: waitForBotResponse_fst)
  have "4 \<le> located_count l polls 0 (attempts (snd (waitLoop random polls u c l 0 0 0)))"
    using waitLoop_NoChange_count[of random polls u c l 0 0 0] x by simp
  then have four: "4 \<le> length (filter (\<lambda>j. located l (polls j)) [0..<?n])"
    by (simp add: located_count_def waitForBotResponse_snd)
  have "?n \<noteq> k + 1" if k: "located l (polls k) \<and> (\<forall>i<k. \<not> located l (polls i))" for k
  proof
    assume "?n = k + 1"
    then have "[0..<?n] = [0..<k] @ [k]" by simp
    moreover have "filter (\<lambda>j. located l (polls j)) [0..<k] = []"
      using k by (auto simp: filter_empty_conv)
    ultimately have "length (filter (\<lambda>j. located l (polls j)) [0..<?n]) \<le> 1"
      by simp
    with four show False by simp
  qed
  with null four show "fst (waitForBotResponse random polls u c l) = Inr None
     \<and> 4 \<le> length (filter (\<lambda>j. located l (polls j)) [0..<?n])
     \<and> (\<forall>k. located l (polls k) \<and> (\<forall>i<k. \<not> located l (polls i)) \<longrightarrow> ?n \<noteq> k + 1)"
    by blast
qed

text \<open>C9 on the conversation that never changes.\<close>

theorem no_change_exit_needs_four_located_polls_witness:
  "fst (waitLoop (\<lambda>j. 0) (\<lambda>j. sample_list [sample_message ''m1'' 100]) ''key'' ''conv'' ''m1'' 0 0 0) = NoChange
   \<and> fst (waitForBotResponse (\<lambda>j. 0) (\<lambda>j. sample_list [sample_message ''m1'' 100]) ''key'' ''conv'' ''m1'') = Inr None
   \<and> 4 \<le> length (filter (\<lambda>j. located ''m1'' (sample_list [sample_message ''m1'' 100]))
        [0..<attempts (snd (waitForBotResponse (\<lambda>j. 0) (\<lambda>j. sample_list [sample_message ''m1'' 100]) ''key'' ''conv'' ''m1''))])"
proof -
  have x: "fst (waitLoop (\<lambda>j. 0) (\<lambda>j. sample_list [sample_message ''m1'' 100]) ''key'' ''conv'' ''m1'' 0 0 0) = NoChange"
    by (simp add: run_defs)
  from no_change_exit_needs_four_located_polls[of "\<lambda>j. 0" "\<lambda>j. sample_list [sample_message ''m1'' 100]" "''key''" "''conv''" "''m1''"] x
  show ?thesis by blast
qed

section \<open>Properties of the cache\<close>

lemma getCachedMessages_Some:
  "fst (getCachedMessages clock cid c) = Some msgs \<Longrightarrow>
     \<exists>cache. c cid = Some cache \<and> cache_messages cache = msgs \<and> clock 1 - lastUpdated cache < ttl cache"
  by (auto simp: getCachedMessages_def clearExpiredCache_def Let_def split: option.splits if_splits)

lemma getCachedMessages_absent: "c cid = None \<Longrightarrow> fst (getCachedMessages clock cid c) = None"
  by (simp add: getCachedMessages_def clearExpiredCache_def Let_def)

lemma fixed_ttl_empty: "fixed_ttl Map.empty"
  by (simp add: fixed_ttl_def)

lemma fixed_ttl_updateCache: "fixed_ttl c \<Longrightarrow> fixed_ttl (updateCache now cid msgs c)"
  by (simp add: fixed_ttl_def updateCache_def)

lemma fixed_ttl_clearExpiredCache: "fixed_ttl c \<Longrightarrow> fixed_ttl (clearExpiredCache now c)"
  by (auto simp: fixed_ttl_def clearExpiredCache_def split: option.splits if_splits)

lemma fixed_ttl_delete: "fixed_ttl c \<Longrightarrow> fixed_ttl (c(cid := None))"
  by (simp add: fixed_ttl_def)

lemma snd_getCachedMessages: "snd (getCachedMessages clock cid c) = clearExpiredCache (clock 0) c"
  by (simp add: getCachedMessages_def Let_def split: option.splits)

lemma fixed_ttl_getCachedMessages: "fixed_ttl c \<Longrightarrow> fixed_ttl (snd (getCachedMessages clock cid c))"
  by (simp add: snd_getCachedMessages fixed_ttl_clearExpiredCache)

lemma fixed_ttl_sendMessage: "fixed_ttl c \<Longrightarrow> fixed_ttl (snd (sendMessage reply uk cid txt c))"
  by (auto simp: sendMessage_def fixed_ttl_delete split: sum.splits)

lemma fixed_ttl_listMessages: "fixed_ttl c \<Longrightarrow> fixed_ttl (snd (listMessages clock reply uk cid c))"
proof -
  assume c: "fixed_ttl c"
  obtain hit c' where g: "getCachedMessages clock cid c = (hit, c')" by (cases "getCachedMessages clock cid c")
  then have "c' = snd (getCachedMessages clock cid c)" by simp
  then have c': "fixed_ttl c'" using c fixed_ttl_getCachedMessages by simp
  show ?thesis
    using g c' by (auto simp: listMessages_def fixed_ttl_updateCache split: option.splits sum.splits)
qed

lemma fixed_ttl_clearConversationCache: "fixed_ttl c \<Longrightarrow> fixed_ttl (clearConversationCache cid c)"
  by (simp add: clearConversationCache_def fixed_ttl_delete)

lemma fixed_ttl_clearAllCache: "fixed_ttl (clearAllCache c)"
  by (simp add: clearAllCache_def fixed_ttl_empty)

text \<open>
  Claim C5. \<open>getCachedMessages\<close> never returns an entry whose age, at the time it reads
  for its test, has reached the entry's ttl; in a cache written by the service the ttl is
  300000 ms. The same holds for the age at the first reading of the clock when the clock
  does not run backwards.
\<close>

theorem expired_entry_is_a_miss:
  "(c cid = Some cache \<and> ttl cache \<le> clock 1 - lastUpdated cache
      \<longrightarrow> fst (getCachedMessages clock cid c) = None)
   \<and> (fixed_ttl c \<and> c cid = Some cache \<and> 300000 \<le> clock 1 - lastUpdated cache
      \<longrightarrow> fst (getCachedMessages clock cid c) = None)
   \<and> (c cid = Some cache \<and> clock 0 \<le> clock 1 \<and> ttl cache \<le> clock 0 - lastUpdated cache
      \<longrightarrow> fst (getCachedMessages clock cid c) = None)
   \<and> (300000 \<le> clock 1 - t
      \<longrightarrow> fst (getCachedMessages clock cid (updateCache t cid msgs c)) = None)"
proof (intro conjI impI)
  assume a: "c cid = Some cache \<and> clock 0 \<le> clock 1 \<and> ttl cache \<le> clock 0 - lastUpdated cache"
  show "fst (getCachedMessages clock cid c) = None"
  proof (cases "fst (getCachedMessages clock cid c)")
    case None
    then show ?thesis .
  next
    case (Some msgs)
    then show ?thesis using getCachedMessages_Some[OF Some] a by auto
  qed
next
  assume a: "c cid = Some cache \<and> ttl cache \<le> clock 1 - lastUpdated cache"
  show "fst (getCachedMessages clock cid c) = None"
  proof (cases "fst (getCachedMessages clock cid c)")
    case None
    then show ?thesis .
  next
    case (Some msgs)
    then show ?thesis using getCachedMessages_Some[OF Some] a by auto
  qed
next
  assume a: "fixed_ttl c \<and> c cid = Some cache \<and> 300000 \<le> clock 1 - lastUpdated cache"
  then have "ttl cache = 300000" by (auto simp: fixed_ttl_def CACHE_TTL_def)
  show "fst (getCachedMessages clock cid c) = None"
  proof (cases "fst (getCachedMessages clock cid c)")
    case None
    then show ?thesis .
  next
    case (Some msgs)
    then show ?thesis using getCachedMessages_Some[OF Some] a \<open>ttl cache = 300000\<close> by auto
  qed
next
  assume a: "300000 \<le> clock 1 - t"
  show "fst (getCachedMessages clock cid (updateCache t cid msgs c)) = None"
  proof (cases "fst (getCachedMessages clock cid (updateCache t cid msgs c))")
    case None
    then show ?thesis .
  next
    case (Some ms)
    then show ?thesis using getCachedMessages_Some[OF Some] a by (auto simp: updateCache_def CACHE_TTL_def)
  qed
qed

text \<open>C5 on an entry stored at time 0: a miss at 300000 ms, still a hit at 299999 ms.\<close>

theorem expired_entry_is_a_miss_witness:
  "fst (getCachedMessages (\<lambda>k. 300000) ''conv''
          (updateCache 0 ''conv'' [sample_message ''m1'' 0] Map.empty)) = None
   \<and> fst (getCachedMessages (\<lambda>k. 299999) ''conv''
          (updateCache 0 ''conv'' [sample_message ''m1'' 0] Map.empty)) = Some [sample_message ''m1'' 0]"
proof -
  have "fst (getCachedMessages (\<lambda>k. 300000) ''conv''
          (updateCache 0 ''conv'' [sample_message ''m1'' 0] Map.empty)) = None"
    using expired_entry_is_a_miss[where clock = "\<lambda>k. 300000" and t = 0 and cid = "''conv''"
        and msgs = "[sample_message ''m1'' 0]" and c = Map.empty]
    by simp
  moreover have "fst (getCachedMessages (\<lambda>k. 299999) ''conv''
          (updateCache 0 ''conv'' [sample_message ''m1'' 0] Map.empty)) = Some [sample_message ''m1'' 0]"
    by (simp add: getCachedMessages_def clearExpiredCache_def updateCache_def CACHE_TTL_def)
  ultimately show ?thesis by blast
qed

text \<open>
  Claim C4. After a successful \<open>sendMessage\<close> for a conversation the cache has no entry
  for it, \<open>getCachedMessages\<close> for it is a miss at any time, and the next
  \<open>listMessages\<close> returns what upstream replies.
\<close>

theorem send_invalidates_cache:
  "fst (sendMessage reply uk cid txt c) = Inr sent \<longrightarrow>
     snd (sendMessage reply uk cid txt c) cid = None
     \<and> fst (getCachedMessages clock cid (snd (sendMessage reply uk cid txt c))) = None
     \<and> fst (listMessages clock upstream uk cid (snd (sendMessage reply uk cid txt c))) = upstream"
proof
  let ?c' = "snd (sendMessage reply uk cid txt c)"
  assume "fst (sendMessage reply uk cid txt c) = Inr sent"
  then have d: "?c' cid = None"
    by (auto simp: sendMessage_def split: sum.splits)
  then have g: "fst (getCachedMessages clock cid ?c') = None"
    by (rule getCachedMessages_absent)
  then have "fst (listMessages clock upstream uk cid ?c') = upstream"
    by (cases "getCachedMessages clock cid ?c'") (auto simp: listMessages_def split: sum.splits option.splits)
  with d g show "?c' cid = None \<and> fst (getCachedMessages clock cid ?c') = None
     \<and> fst (listMessages clock upstream uk cid ?c') = upstream" by blast
qed

text \<open>C4 on a cache that held the conversation: a hit before the send, a miss after it.\<close>

theorem send_invalidates_cache_witness:
  "fst (getCachedMessages (\<lambda>k. 10) ''conv'' (updateCache 0 ''conv'' [sample_message ''m1'' 0] Map.empty))
     = Some [sample_message ''m1'' 0]
   \<and> fst (getCachedMessages (\<lambda>k. 10) ''conv''
       (snd (sendMessage (Inr \<lparr>sent_message = sample_message ''m2'' 5\<rparr>) ''key'' ''conv'' ''hello''
              (updateCache 0 ''conv'' [sample_message ''m1'' 0] Map.empty)))) = None"
proof -
  have "fst (sendMessage (Inr \<lparr>sent_message = sample_message ''m2'' 5\<rparr>) ''key'' ''conv'' ''hello''
              (updateCache 0 ''conv'' [sample_message ''m1'' 0] Map.empty)) = Inr \<lparr>sent_message = sample_message ''m2'' 5\<rparr>"
    by (simp add: sendMessage_def)
  with send_invalidates_cache[of "Inr \<lparr>sent_message = sample_message ''m2'' 5\<rparr>" "''key''" "''conv''" "''hello''"
      "updateCache 0 ''conv'' [sample_message ''m1'' 0] Map.empty" "\<lparr>sent_message = sample_message ''m2'' 5\<rparr>" "\<lambda>k. 10"]
  have "fst (getCachedMessages (\<lambda>k. 10) ''conv''
       (snd (sendMessage (Inr \<lparr>sent_message = sample_message ''m2'' 5\<rparr>) ''key'' ''conv'' ''hello''
              (updateCache 0 ''conv'' [sample_message ''m1'' 0] Map.empty)))) = None" by blast
  moreover have "fst (getCachedMessages (\<lambda>k. 10) ''conv'' (updateCache 0 ''conv'' [sample_message ''m1'' 0] Map.empty))
     = Some [sample_message ''m1'' 0]"
    by (simp add: getCachedMessages_def clearExpiredCache_def updateCache_def CACHE_TTL_def)
  ultimately show ?thesis by blast
qed

text \<open>
  Claim C10. On a cache hit \<open>listMessages\<close> returns the cached messages with
  \<open>meta.pageSize\<close> their number and \<open>meta.nextToken\<close> undefined, whatever upstream
  would reply, and leaves the cache as \<open>getCachedMessages\<close> left it.
\<close>

theorem cache_hit_synthesizes_meta:
  "fst (getCachedMessages clock cid c) = Some cached \<longrightarrow>
     (\<exists>r. fst (listMessages clock upstream uk cid c) = Inr r
        \<and> messages r = Some cached
        \<and> property (meta r) ''pageSize'' = JNumber (real (length cached))
        \<and> property (meta r) ''nextToken'' = JUndefined)
     \<and> snd (listMessages clock upstream uk cid c) = snd (getCachedMessages clock cid c)"
  by (cases "getCachedMessages clock cid c") (auto simp: listMessages_def property_def)

text \<open>
  C10 on an entry stored from a reply whose meta was \<open>{pageSize: 50, nextToken: "page2"}\<close>.
\<close>

theorem cache_hit_synthesizes_meta_witness:
  "(\<exists>r. fst (listMessages (\<lambda>k. 20) (Inl (AxiosError ''unused'')) ''key'' ''conv''
            (snd (listMessages (\<lambda>k. 10)
                    (Inr \<lparr>messages = Some [sample_message ''m1'' 0, sample_message ''b1'' 5],
                          meta = [''pageSize'' \<mapsto> JNumber 50, ''nextToken'' \<mapsto> JString ''page2'']\<rparr>)
                    ''key'' ''conv'' Map.empty))) = Inr r
      \<and> messages r = Some [sample_message ''m1'' 0, sample_message ''b1'' 5]
      \<and> property (meta r) ''pageSize'' = JNumber 2
      \<and> property (meta r) ''nextToken'' = JUndefined)"
proof -
  let ?c = "snd (listMessages (\<lambda>k. 10)
                    (Inr \<lparr>messages = Some [sample_message ''m1'' 0, sample_message ''b1'' 5],
                          meta = [''pageSize'' \<mapsto> JNumber 50, ''nextToken'' \<mapsto> JString ''page2'']\<rparr>)
                    ''key'' ''conv'' Map.empty)"
  have "fst (getCachedMessages (\<lambda>k. 20) ''conv'' ?c) = Some [sample_message ''m1'' 0, sample_message ''b1'' 5]"
    by (simp add: listMessages_def getCachedMessages_def clearExpiredCache_def updateCache_def CACHE_TTL_def)
  with cache_hit_synthesizes_meta[of "\<lambda>k. 20" "''conv''" ?c "[sample_message ''m1'' 0, sample_message ''b1'' 5]"
      "Inl (AxiosError ''unused'')" "''key''"]
  show ?thesis by simp
qed

section \<open>Properties of the controllers\<close>

text \<open>
  Claim C6 says a message that is not a string is answered with status 400. For the body
  \<open>{"message": 123}\<close> the first log call evaluates \<open>message?.substring(0, 50)\<close>,
  which throws before the validation is reached; the outer \<open>catch\<close> answers with
  status 500. No call to the service is made.
\<close>

theorem non_string_message_answers_500:
  "handleChatMessage
     \<lparr>body_message = JNumber 123, body_userId = None, body_conversationId = None,
      header_user_key = None\<rparr> svc
   = (Response 500 []
        (FailureBody ''Failed to process message'' ''message?.substring is not a function''
           ''INTERNAL_SERVER_ERROR''), [])"
  by (simp add: handleChatMessage_def)

text \<open>
  The same happens for every message that is neither \<open>null\<close>, \<open>undefined\<close> nor a
  string.
\<close>

lemma non_string_message_not_rejected_as_invalid:
  assumes "body_message req \<noteq> JUndefined" "body_message req \<noteq> JNull" "typeof (body_message req) \<noteq> ''string''"
  shows "status (fst (handleChatMessage req svc)) = 500 \<and> snd (handleChatMessage req svc) = []"
  using assms by (cases "body_message req") (simp_all add: handleChatMessage_def)

lemma length_dropWhile_le': "length (dropWhile P xs) \<le> length xs"
  by (induction xs) auto

lemma length_trim_le: "length (trim s) \<le> length s"
proof -
  have "length (trim s) = length (dropWhile is_whitespace (rev (dropWhile is_whitespace s)))"
    by (simp add: trim_def)
  also have "\<dots> \<le> length (rev (dropWhile is_whitespace s))"
    by (rule length_dropWhile_le')
  also have "\<dots> \<le> length s" by (simp add: length_dropWhile_le')
  finally show ?thesis .
qed

text \<open>
  The rest of C6 holds: a message that is missing, \<open>null\<close>, empty, made of white space
  only, or longer than 5000 characters after trimming is answered with status 400 before
  any call to the service. (The source tests the length before trimming, which is at
  least the length after it.)
\<close>

lemma invalid_string_message_rejected:
  assumes "body_message req = JUndefined \<or> body_message req = JNull
    \<or> (\<exists>s. body_message req = JString s \<and> (trim s = [] \<or> 5000 < length (trim s)))"
  shows "status (fst (handleChatMessage req svc)) = 400 \<and> snd (handleChatMessage req svc) = []"
proof -
  consider "body_message req = JUndefined" | "body_message req = JNull"
    | s where "body_message req = JString s" "trim s = [] \<or> 5000 < length (trim s)"
    using assms by blast
  then show ?thesis
  proof cases
    case 1
    then show ?thesis by (simp add: handleChatMessage_def falsy_def)
  next
    case 2
    then show ?thesis by (simp add: handleChatMessage_def falsy_def)
  next
    case 3
    have "5000 < length (trim s) \<Longrightarrow> 5000 < length s"
      using length_trim_le[of s] by simp
    with 3 show ?thesis
      by (auto simp: handleChatMessage_def falsy_def Let_def)
  qed
qed

text \<open>
  Claim C7. When the handler has called \<open>sendMessage\<close>, the send succeeded and the
  \<open>listMessages\<close> call for the history throws, the response has status 200, an empty
  \<open>messages\<close> list and the sent message in \<open>message\<close>.
\<close>

theorem history_failure_is_not_fatal:
  assumes "CallSendMessage k cv m \<in> set (snd (handleChatMessage req svc))"
    and "sendMessage_outcome svc = Inr sent"
    and "listMessages_outcome svc = Inl e"
  shows "\<exists>r. fst (handleChatMessage req svc) = Response 200 no_cache_headers (ChatBody r)
    \<and> chat_messages r = [] \<and> chat_message r = sent
    \<and> CallListMessages k cv \<in> set (snd (handleChatMessage req svc))"
  using assms
  by (auto simp: handleChatMessage_def Let_def split: sum.splits if_splits prod.splits)


text \<open>C7 on a first message \<open>Hello\<close> whose history call fails with status 502.\<close>

theorem history_failure_is_not_fatal_witness:
  "CallSendMessage ''key'' ''conv'' ''Hello'' \<in> set (snd (handleChatMessage sample_request sample_outcomes))
   \<and> (\<exists>r. fst (handleChatMessage sample_request sample_outcomes) = Response 200 no_cache_headers (ChatBody r)
        \<and> chat_messages r = [] \<and> chat_message r = \<lparr>sent_message = sample_message ''m1'' 100\<rparr>)"
proof -
  have called: "CallSendMessage ''key'' ''conv'' ''Hello'' \<in> set (snd (handleChatMessage sample_request sample_outcomes))"
    by (simp add: handleChatMessage_def sample_request_def sample_outcomes_def falsy_def trim_def
        is_whitespace_def Let_def)
  have sent: "sendMessage_outcome sample_outcomes = Inr \<lparr>sent_message = sample_message ''m1'' 100\<rparr>"
    by (simp add: sample_outcomes_def)
  have failed: "listMessages_outcome sample_outcomes = Inl (AxiosError ''Request failed with status code 502'')"
    by (simp add: sample_outcomes_def)
  from history_failure_is_not_fatal[OF called sent failed] called show ?thesis by blast
qed

text \<open>
  Claim C8, amended. A submission whose email does not match the format is answered with
  status 400 and no call to the relay; the error is \<open>Invalid email format\<close> when name,
  email and message are all present and non-empty, and \<open>Missing required fields\<close>
  otherwise.
\<close>

theorem invalid_email_rejected_without_relay:
  "\<not> emailRegex_test (given (body_email req)) \<longrightarrow>
     ContactController_sendMessage req relay =
       (ContactResponse 400
          (ContactError
             (if absent (body_name req) \<or> absent (body_email req) \<or> absent (body_contact_message req)
              then ''Missing required fields'' else ''Invalid email format'')), [])"
  by (simp add: ContactController_sendMessage_def Let_def)

text \<open>C8 as amended, on a complete form with the email \<open>not-an-email\<close>.\<close>

theorem invalid_email_rejected_without_relay_witness:
  "\<not> emailRegex_test ''not-an-email''
   \<and> ContactController_sendMessage
       \<lparr>body_name = Some ''Ann'', body_email = Some ''not-an-email'',
        body_contact_message = Some ''Hello there''\<rparr>
       \<lparr>validateConnection_outcome = True, relay_sendMessage_outcome = Inr ()\<rparr>
     = (ContactResponse 400 (ContactError ''Invalid email format''), [])"
proof -
  have bad: "\<not> emailRegex_test ''not-an-email''" by code_simp
  from invalid_email_rejected_without_relay[of
      "\<lparr>body_name = Some ''Ann'', body_email = Some ''not-an-email'', body_contact_message = Some ''Hello there''\<rparr>"
      "\<lparr>validateConnection_outcome = True, relay_sendMessage_outcome = Inr ()\<rparr>"] bad
  show ?thesis by simp
qed

text \<open>
  Claim C8 as stated fails when another field is missing: the same email without a name
  is answered with the generic \<open>Missing required fields\<close>, not with an error about the
  email field.
\<close>

theorem invalid_email_with_missing_name_counterexample:
  "\<not> emailRegex_test ''not-an-email''
   \<and> ContactController_sendMessage
       \<lparr>body_name = None, body_email = Some ''not-an-email'',
        body_contact_message = Some ''Hello there''\<rparr>
       \<lparr>validateConnection_outcome = True, relay_sendMessage_outcome = Inr ()\<rparr>
     = (ContactResponse 400 (ContactError ''Missing required fields''), [])
   \<and> ''Missing required fields'' \<noteq> ''Invalid email format''"
proof -
  have "\<not> emailRegex_test ''not-an-email''" by code_simp
  then show ?thesis by (simp add: ContactController_sendMessage_def)
qed


end
